theory Spec2Isabelle
  imports Main "HOL-Library.AList"
begin

section \<open>Python values and exceptions\<close>

text \<open>
  Every exception the modelled code can raise is a constructor of \<open>error\<close>; a function
  that can raise returns \<open>error + 'a\<close>, and a method that also mutates its object
  returns the outcome together with the object after the call.
\<close>

datatype error =
    ValueError
  | KeyError
  | TypeError
  | IndexError
  | OSError
  | ConnectionError
  | ForeignKeyError
  | PrimaryKeyNotFoundError
  | InvalidTGOPError
  | RuntimeError
  | AttributeError

subsection \<open>\<open>str(int)\<close> and \<open>int(str)\<close>\<close>

definition digit_char :: "nat \<Rightarrow> char" where
  "digit_char d = char_of (48 + d)"

definition is_digit :: "char \<Rightarrow> bool" where
  "is_digit c = (48 \<le> (of_char c :: nat) \<and> (of_char c :: nat) \<le> 57)"

definition digit_val :: "char \<Rightarrow> nat" where
  "digit_val c = of_char c - 48"

text \<open>Decimal digits of a natural number, most significant first.\<close>

fun str_nat :: "nat \<Rightarrow> string" where
  "str_nat n = (if n < 10 then [digit_char n] else str_nat (n div 10) @ [digit_char (n mod 10)])"

declare str_nat.simps [simp del]

text \<open>\<open>str(value)\<close> for a Python int: a minus sign for negatives, no leading zeros.\<close>

definition str_int :: "int \<Rightarrow> string" where
  "str_int i = (if i < 0 then CHR ''-'' # str_nat (nat (- i)) else str_nat (nat i))"

text \<open>
  \<open>int(s)\<close> in base 10: surrounding whitespace is stripped, one sign is allowed, then
  digits, where single underscores may separate digits. Anything else is a ValueError.
\<close>

definition is_space :: "char \<Rightarrow> bool" where
  "is_space c = ((of_char c :: nat) \<in> {9, 10, 11, 12, 13, 32})"

definition strip :: "string \<Rightarrow> string" where
  "strip s = rev (dropWhile is_space (rev (dropWhile is_space s)))"

fun parse_digits :: "nat \<Rightarrow> string \<Rightarrow> nat option" where
  "parse_digits acc [] = Some acc"
| "parse_digits acc [c] = (if is_digit c then Some (10 * acc + digit_val c) else None)"
| "parse_digits acc (c # d # cs) =
     (if is_digit c then parse_digits (10 * acc + digit_val c) (d # cs)
      else if c = CHR ''_'' \<and> is_digit d then parse_digits (10 * acc + digit_val d) cs
      else None)"

definition int_str :: "string \<Rightarrow> error + int" where
  "int_str s =
     (let t = strip s;
          neg = (case t of [] \<Rightarrow> False | c # _ \<Rightarrow> c = CHR ''-'');
          body = (case t of [] \<Rightarrow> [] | c # r \<Rightarrow> if c = CHR ''-'' \<or> c = CHR ''+'' then r else t)
      in case body of
           [] \<Rightarrow> Inl ValueError
         | d # ds \<Rightarrow>
             if is_digit d then
               (case parse_digits (digit_val d) ds of
                  None \<Rightarrow> Inl ValueError
                | Some n \<Rightarrow> Inr (if neg then - int n else int n))
             else Inl ValueError)"

abbreviation shift :: "nat \<Rightarrow> char \<Rightarrow> nat" where
  "shift a c \<equiv> 10 * a + digit_val c"

section \<open>Checkpoint store (checkpoint.py)\<close>

subsection \<open>FileCheckpoint\<close>

text \<open>
  The object holds the cached \<open>_checkpoint\<close>; the file named \<open>_checkpoint_file\<close> is the
  part of the file system the class touches: its content when it exists, and whether
  \<open>open\<close> succeeds for writing and for reading.
\<close>

record FileCheckpoint =
  fc_checkpoint :: "int option"
  fc_file :: "string option"
  fc_can_write :: bool
  fc_can_read :: bool

definition FileCheckpoint_set_value ::
  "int option \<Rightarrow> FileCheckpoint \<Rightarrow> (error + unit) \<times> FileCheckpoint" where
  "FileCheckpoint_set_value val st =
     (case val of
        None \<Rightarrow> (Inl ValueError, st)
      | Some v \<Rightarrow>
          if \<not> fc_can_write st then (Inl OSError, st)
          else (Inr (), st\<lparr>fc_file := Some (str_int v), fc_checkpoint := Some v\<rparr>))"

definition FileCheckpoint_get_value ::
  "FileCheckpoint \<Rightarrow> (error + int option) \<times> FileCheckpoint" where
  "FileCheckpoint_get_value st =
     (case fc_file st of
        None \<Rightarrow> (Inr (fc_checkpoint st), st)
      | Some content \<Rightarrow>
          if \<not> fc_can_read st then (Inl OSError, st)
          else (case int_str content of
                  Inl e \<Rightarrow> (Inl e, st)
                | Inr v \<Rightarrow> (Inr (Some v), st\<lparr>fc_checkpoint := Some v\<rparr>)))"

definition FileCheckpoint_teardown :: "FileCheckpoint \<Rightarrow> FileCheckpoint" where
  "FileCheckpoint_teardown st = st\<lparr>fc_file := None\<rparr>"

subsection \<open>RedisCheckpoint\<close>

text \<open>
  The key-value server is a map from keys to strings (\<open>decode_responses=True\<close>) and a
  flag telling whether the connection works; the object holds its \<open>_key\<close>.
\<close>

record RedisCheckpoint =
  rc_key :: string
  rc_store :: "string \<rightharpoonup> string"
  rc_up :: bool

definition RedisCheckpoint_set_value ::
  "int option \<Rightarrow> RedisCheckpoint \<Rightarrow> (error + unit) \<times> RedisCheckpoint" where
  "RedisCheckpoint_set_value val st =
     (case val of
        None \<Rightarrow> (Inl ValueError, st)
      | Some v \<Rightarrow>
          if \<not> rc_up st then (Inl ConnectionError, st)
          else (Inr (), st\<lparr>rc_store := (rc_store st)(rc_key st \<mapsto> str_int v)\<rparr>))"

definition RedisCheckpoint_get_value ::
  "RedisCheckpoint \<Rightarrow> (error + int option) \<times> RedisCheckpoint" where
  "RedisCheckpoint_get_value st =
     (if \<not> rc_up st then (Inl ConnectionError, st)
      else case rc_store st (rc_key st) of
             None \<Rightarrow> (Inr None, st)
           | Some s \<Rightarrow> (case int_str s of Inl e \<Rightarrow> (Inl e, st) | Inr v \<Rightarrow> (Inr (Some v), st)))"

definition RedisCheckpoint_teardown :: "RedisCheckpoint \<Rightarrow> (error + unit) \<times> RedisCheckpoint" where
  "RedisCheckpoint_teardown st =
     (if \<not> rc_up st then (Inl ConnectionError, st)
      else (Inr (), st\<lparr>rc_store := (rc_store st)(rc_key st := None)\<rparr>))"

section \<open>The data model of the resolver (sync.py)\<close>

subsection \<open>Values, dictionaries and the error monad\<close>

text \<open>
  Column values are the JSON scalars \<open>None\<close>, integers and strings; on these Python's
  \<open>==\<close> is equality. \<open>truthy\<close> is the test \<open>if value:\<close> and \<open>py_str\<close> is \<open>str(value)\<close>.
\<close>

datatype pyval = PyNone | PyInt int | PyStr string

fun truthy :: "pyval \<Rightarrow> bool" where
  "truthy PyNone = False"
| "truthy (PyInt i) = (i \<noteq> 0)"
| "truthy (PyStr s) = (s \<noteq> [])"

fun py_str :: "pyval \<Rightarrow> string" where
  "py_str PyNone = ''None''"
| "py_str (PyInt i) = str_int i"
| "py_str (PyStr s) = s"

text \<open>
  A dict is an association list in insertion order without repeated keys; \<open>d[k] = v\<close> is
  \<open>AList.update k v d\<close> (overwrite in place, or append), \<open>d[k]\<close> is \<open>getitem\<close> and raises
  KeyError on a missing key, \<open>d.get(k)\<close> is \<open>map_of d k\<close>.
\<close>

type_synonym ('k, 'v) dict = "('k \<times> 'v) list"

type_synonym row = "(string, pyval) dict"

definition getitem :: "('k, 'v) dict \<Rightarrow> 'k \<Rightarrow> error + 'v" where
  "getitem d k = (case map_of d k of None \<Rightarrow> Inl KeyError | Some v \<Rightarrow> Inr v)"

text \<open>A dict display \<open>{k1: v1, k2: v2}\<close> and \<open>dict(zip(keys, values))\<close>: a later pair
  overwrites an earlier one with the same key.\<close>

definition dict_of :: "('k \<times> 'v) list \<Rightarrow> ('k, 'v) dict" where
  "dict_of kvs = foldl (\<lambda>d (k, v). AList.update k v d) [] kvs"

definition dict_zip :: "'k list \<Rightarrow> 'v list \<Rightarrow> ('k, 'v) dict" where
  "dict_zip ks vs = dict_of (zip ks vs)"

text \<open>\<open>xs[i]\<close> for a non-negative index.\<close>

definition list_index :: "'a list \<Rightarrow> nat \<Rightarrow> error + 'a" where
  "list_index xs i = (if i < length xs then Inr (xs ! i) else Inl IndexError)"

fun bind :: "error + 'a \<Rightarrow> ('a \<Rightarrow> error + 'b) \<Rightarrow> error + 'b" where
  "bind (Inl e) f = Inl e"
| "bind (Inr x) f = f x"

text \<open>A comprehension whose body can raise, and a loop that threads a value and can raise.\<close>

fun mapM :: "('a \<Rightarrow> error + 'b) \<Rightarrow> 'a list \<Rightarrow> error + 'b list" where
  "mapM f [] = Inr []"
| "mapM f (x # xs) = bind (f x) (\<lambda>y. bind (mapM f xs) (\<lambda>ys. Inr (y # ys)))"

fun foldM :: "('s \<Rightarrow> 'a \<Rightarrow> error + 's) \<Rightarrow> 's \<Rightarrow> 'a list \<Rightarrow> error + 's" where
  "foldM f s [] = Inr s"
| "foldM f s (x # xs) = bind (f s x) (\<lambda>s'. foldM f s' xs)"

text \<open>\<open>sep.join(parts)\<close>.\<close>

fun join :: "string \<Rightarrow> string list \<Rightarrow> string" where
  "join sep [] = []"
| "join sep [x] = x"
| "join sep (x # y # ys) = x @ sep @ join sep (y # ys)"

text \<open>\<open>s.split(sep)\<close>; an empty separator raises ValueError.\<close>

function split_from :: "string \<Rightarrow> string \<Rightarrow> string \<Rightarrow> string list" where
  "split_from sep cur [] = [cur]"
| "split_from sep cur (c # cs) =
     (if sep \<noteq> [] \<and> take (length sep) (c # cs) = sep
      then cur # split_from sep [] (drop (length sep) (c # cs))
      else split_from sep (cur @ [c]) cs)"
  by pat_completeness auto
termination
  by (relation "measure (\<lambda>(sep, cur, s). length s)") auto

definition py_split :: "string \<Rightarrow> string \<Rightarrow> error + string list" where
  "py_split s sep = (if sep = [] then Inl ValueError else Inr (split_from sep [] s))"

subsection \<open>Payload, Node, Tree\<close>

record Payload =
  tg_op :: string
  schema :: string
  table :: string
  old :: row
  new :: row
  xmin :: "int option"

definition INSERT :: string where "INSERT = ''INSERT''"
definition UPDATE :: string where "UPDATE = ''UPDATE''"
definition DELETE :: string where "DELETE = ''DELETE''"
definition TRUNCATE :: string where "TRUNCATE = ''TRUNCATE''"

definition TG_OP :: "string list" where
  "TG_OP = [DELETE, INSERT, TRUNCATE, UPDATE]"

text \<open>
  Modelled from the spec: the property \<open>Payload.data\<close> is declared in base.py, which
  is not among the sources; the data model gives it as \<open>new\<close> if non-empty, else \<open>old\<close>.
\<close>

definition data :: "Payload \<Rightarrow> row" where
  "data p = (if new p \<noteq> [] then new p else old p)"

text \<open>
  The fields of a node that sync.py reads: \<open>model_primary_keys\<close> is
  \<open>node.model.primary_keys\<close>, \<open>primary_keys\<close> the names of \<open>node.primary_keys\<close>.
\<close>

datatype Node = Node
  (node_table: string)
  (node_schema: string)
  (node_name: string)
  (is_root: bool)
  (model_primary_keys: "string list")
  (primary_keys: "string list")
  (base_tables: "string list")
  (parent: "Node option")

record Tree =
  root :: Node
  tables :: "string list"
  schemas :: "string list"
  get_node :: "string \<Rightarrow> string \<Rightarrow> Node"
  traverse_breadth_first :: "Node list"

subsection \<open>The Sync object and its collaborators\<close>

type_synonym fkeys = "(string, string list) dict"

type_synonym filters = "(string, row list) dict"

text \<open>
  The search client, the query builder, the foreign-key constraints of a payload and
  the settings are outside the sources; the object carries them as fields.
  \<open>search index table fields\<close> is \<open>search_client._search\<close>, \<open>get_foreign_keys\<close> the
  query builder's public lookup and \<open>get_foreign_keys_alt\<close> its \<open>_get_foreign_keys\<close>.
  \<open>checkpoint\<close> and \<open>truncate_flag\<close> (\<open>_truncate\<close>) are the two attributes the methods below assign.
\<close>

datatype Checkpoint = File FileCheckpoint | Redis RedisCheckpoint

record Sync =
  index :: string
  routing :: "string option"
  tree :: Tree
  major_version :: int
  is_opensearch :: bool
  search :: "string \<Rightarrow> string \<Rightarrow> (string, pyval list) dict option \<Rightarrow> string list"
  get_foreign_keys :: "Node option \<Rightarrow> Node \<Rightarrow> error + fkeys"
  get_foreign_keys_alt :: "Node option \<Rightarrow> Node \<Rightarrow> error + fkeys"
  foreign_key_constraint :: "Payload \<Rightarrow> Node \<Rightarrow> (string, string \<times> pyval) dict"
  parse_logical_slot :: "string \<Rightarrow> error + Payload"
  PRIMARY_KEY_DELIMITER :: string
  USE_ASYNC :: bool
  FILTER_CHUNK_SIZE :: nat
  LOGICAL_SLOT_CHUNK_SIZE :: nat
  checkpoint :: Checkpoint
  truncate_flag :: bool

text \<open>A bulk op that deletes one document: the keys \<open>_id\<close>, \<open>_index\<close>, \<open>_op_type\<close>,
  and \<open>_routing\<close>, \<open>_type\<close> when set.\<close>

record doc =
  doc_id :: string
  doc_index :: string
  doc_op_type :: string
  doc_routing :: "pyval option"
  doc_type :: "string option"

text \<open>Bounds of a call on the logical replication slot.\<close>

record bounds =
  txmin :: "int option"
  txmax :: "int option"
  upto_nchanges :: "nat option"
  upto_lsn :: "string option"

text \<open>
  What the resolver does to the index: a direct \<open>search_client.bulk(index, docs, **kwargs)\<close>,
  a call \<open>sync(filters=...)\<close>, whose documents go to the enclosing bulk, and the forward
  pass \<open>sync(txmin=..., txmax=...)\<close> of \<open>pull\<close>. The model records each call in order and
  takes it to return.
\<close>

datatype event =
    Bulk "doc list" "(string, bool option) dict"
  | SyncFilters filters
  | SyncTx "int option" "int option"

datatype slot_call = Peek bounds | Get bounds

subsection \<open>Document ids and the three resolvers\<close>

definition get_doc_id :: "Sync \<Rightarrow> pyval list \<Rightarrow> string \<Rightarrow> error + string" where
  "get_doc_id s pkeys tbl =
     (if pkeys = [] then Inl PrimaryKeyNotFoundError
      else Inr (join (PRIMARY_KEY_DELIMITER s) (map py_str pkeys)))"

text \<open>\<open>if self.routing:\<close> and the test that adds \<open>_type\<close>.\<close>

definition routing_set :: "Sync \<Rightarrow> bool" where
  "routing_set s = (case routing s of None \<Rightarrow> False | Some r \<Rightarrow> r \<noteq> [])"

definition doc_type_of :: "Sync \<Rightarrow> string option" where
  "doc_type_of s = (if major_version s < 7 \<and> \<not> is_opensearch s then Some ''_doc'' else None)"

text \<open>
  The body shared by the resolvers: a document id is split at the delimiter and its
  parts are matched by position with the root's primary keys.
\<close>

definition doc_id_where :: "Sync \<Rightarrow> string \<Rightarrow> error + row" where
  "doc_id_where s did =
     bind (py_split did (PRIMARY_KEY_DELIMITER s)) (\<lambda>params.
       foldM (\<lambda>wh (i, key). bind (list_index params i) (\<lambda>v. Inr (AList.update key (PyStr v) wh)))
         [] (enumerate 0 (model_primary_keys (root (tree s)))))"

definition search_filters :: "Sync \<Rightarrow> string list \<Rightarrow> row list \<Rightarrow> error + row list" where
  "search_filters s doc_ids fs =
     foldM (\<lambda>fs did. bind (doc_id_where s did) (\<lambda>wh. Inr (fs @ [wh]))) fs doc_ids"

definition root_primary_key_resolver ::
  "Sync \<Rightarrow> Node \<Rightarrow> Payload \<Rightarrow> row list \<Rightarrow> error + row list" where
  "root_primary_key_resolver s node payload fs =
     bind (mapM (getitem (data payload)) (model_primary_keys node)) (\<lambda>primary_values.
       let primary_fields = dict_zip (model_primary_keys node) primary_values;
           fields = map (\<lambda>(key, v). (key, [v])) primary_fields
       in search_filters s (search s (index s) (node_table node) (Some fields)) fs)"

text \<open>\<open>fields[key].append(value)\<close> on a \<open>defaultdict(list)\<close>.\<close>

definition dd_append :: "'k \<Rightarrow> 'v \<Rightarrow> ('k, 'v list) dict \<Rightarrow> ('k, 'v list) dict" where
  "dd_append k v d = AList.update k ((case map_of d k of None \<Rightarrow> [] | Some l \<Rightarrow> l) @ [v]) d"

definition root_foreign_key_resolver ::
  "Sync \<Rightarrow> Node \<Rightarrow> Payload \<Rightarrow> fkeys \<Rightarrow> row list \<Rightarrow> error + row list" where
  "root_foreign_key_resolver s node payload foreign_keys fs =
     bind (getitem foreign_keys (node_name node)) (\<lambda>cols.
       let foreign_values =
             map (\<lambda>key. case map_of (new payload) key of None \<Rightarrow> PyNone | Some v \<Rightarrow> v) cols;
           fields =
             foldl (\<lambda>fields key.
                 foldl (\<lambda>fields v. if truthy v then dd_append key v fields else fields)
                   fields foreign_values)
               [] (primary_keys node)
       in case parent node of
            None \<Rightarrow> Inl AttributeError
          | Some par \<Rightarrow> search_filters s (search s (index s) (node_table par) (Some fields)) fs)"

definition through_node_resolver :: "Sync \<Rightarrow> Node \<Rightarrow> Payload \<Rightarrow> row list \<Rightarrow> row list" where
  "through_node_resolver s node payload fs =
     (case map_of (foreign_key_constraint s payload node) (node_name (root (tree s))) of
        None \<Rightarrow> fs
      | Some (remote, v) \<Rightarrow> fs @ [[(remote, v)]])"

subsection \<open>The operations on a run of payloads\<close>

text \<open>\<open>filters[k].append(x)\<close> and \<open>filters[k].extend(xs)\<close>.\<close>

definition filters_append :: "filters \<Rightarrow> string \<Rightarrow> row \<Rightarrow> error + filters" where
  "filters_append fs k x = bind (getitem fs k) (\<lambda>l. Inr (AList.update k (l @ [x]) fs))"

definition filters_extend :: "filters \<Rightarrow> string \<Rightarrow> row list \<Rightarrow> error + filters" where
  "filters_extend fs k xs = bind (getitem fs k) (\<lambda>l. Inr (AList.update k (l @ xs) fs))"

text \<open>
  The block \<open>try: get_foreign_keys(parent, node) except ForeignKeyError:
  _get_foreign_keys(parent, node)\<close>, as it stands in \<open>_insert_op\<close> (node of the tree)
  and in \<open>_update_op\<close>.
\<close>

definition lookup_foreign_keys :: "Sync \<Rightarrow> Node option \<Rightarrow> Node \<Rightarrow> error + fkeys" where
  "lookup_foreign_keys s par node =
     (case get_foreign_keys s par node of
        Inr foreign_keys \<Rightarrow> Inr foreign_keys
      | Inl e \<Rightarrow> if e = ForeignKeyError then get_foreign_keys_alt s par node else Inl e)"

text \<open>The two nested loops over the node's and the parent's foreign-key columns.\<close>

definition insert_parent_filters ::
  "Node \<Rightarrow> Node \<Rightarrow> fkeys \<Rightarrow> Payload \<Rightarrow> filters \<Rightarrow> error + filters" where
  "insert_parent_filters par node foreign_keys payload fs =
     bind (getitem foreign_keys (node_name node)) (\<lambda>node_keys.
       foldM (\<lambda>fs node_key.
           bind (getitem foreign_keys (node_name par)) (\<lambda>parent_keys.
             foldM (\<lambda>fs parent_key.
                 if node_key = parent_key then
                   bind (getitem fs (node_table par)) (\<lambda>l.
                   bind (getitem (data payload) node_key) (\<lambda>v.
                     Inr (AList.update (node_table par) (l @ [[(parent_key, v)]]) fs)))
                 else Inr fs)
               fs parent_keys))
         fs node_keys)"

text \<open>The loop of the through-table branch: columns are paired by position.\<close>

definition insert_through_filters ::
  "Node \<Rightarrow> fkeys \<Rightarrow> Payload \<Rightarrow> filters \<Rightarrow> error + filters" where
  "insert_through_filters node foreign_keys payload fs =
     bind (getitem foreign_keys (node_name node)) (\<lambda>cols.
       foldM (\<lambda>fs (i, key).
           case parent node of
             None \<Rightarrow> Inl AttributeError
           | Some par \<Rightarrow>
               bind (getitem fs (node_table par)) (\<lambda>l.
               bind (getitem foreign_keys (node_name par)) (\<lambda>parent_cols.
               bind (list_index parent_cols i) (\<lambda>parent_key.
               bind (getitem (data payload) key) (\<lambda>v.
                 Inr (AList.update (node_table par) (l @ [[(parent_key, v)]]) fs))))))
         fs (enumerate 0 cols))"

definition insert_op :: "Sync \<Rightarrow> Node \<Rightarrow> filters \<Rightarrow> Payload list \<Rightarrow> error + filters" where
  "insert_op s node fs payloads =
     (if node_table node \<in> set (tables (tree s)) then
        if is_root node then
          foldM (\<lambda>fs payload.
              bind (mapM (getitem (data payload)) (model_primary_keys (root (tree s))))
                (\<lambda>primary_values.
                  filters_append fs (node_table node)
                    (dict_zip (model_primary_keys (root (tree s))) primary_values)))
            fs payloads
        else
          case parent node of
            None \<Rightarrow> Inl RuntimeError
          | Some par \<Rightarrow>
              bind (lookup_foreign_keys s (Some par) node) (\<lambda>foreign_keys.
              bind (foldM (\<lambda>(fs, rfilters) payload.
                      bind (insert_parent_filters par node foreign_keys payload fs) (\<lambda>fs.
                      bind (root_foreign_key_resolver s node payload foreign_keys rfilters)
                        (\<lambda>rfilters.
                          Inr (fs, through_node_resolver s node payload rfilters))))
                    (fs, []) payloads)
                (\<lambda>(fs, rfilters).
                  if rfilters \<noteq> [] then filters_extend fs (node_table (root (tree s))) rfilters
                  else Inr fs))
      else
        bind (get_foreign_keys s (parent node) node) (\<lambda>foreign_keys.
          foldM (\<lambda>fs payload. insert_through_filters node foreign_keys payload fs) fs payloads))"

text \<open>
  The delete op of \<open>_update_op\<close> for one payload of the root table, if any. With a
  routing column configured the source evaluates \<open>old_values[self.routing]\<close>, a list
  indexed by a string, which raises TypeError.
\<close>

definition update_doc :: "Sync \<Rightarrow> Payload \<Rightarrow> error + doc option" where
  "update_doc s payload =
     (let pks = model_primary_keys (root (tree s));
          old_values = List.map_filter (map_of (old payload)) pks
      in bind (mapM (getitem (new payload)) pks) (\<lambda>new_values.
           if length old_values = length new_values \<and> old_values \<noteq> new_values then
             bind (get_doc_id s old_values (node_table (root (tree s)))) (\<lambda>did.
               if routing_set s then Inl TypeError
               else Inr (Some \<lparr>doc_id = did, doc_index = index s, doc_op_type = ''delete'',
                                doc_routing = None, doc_type = doc_type_of s\<rparr>))
           else Inr None))"

definition update_op ::
  "Sync \<Rightarrow> Node \<Rightarrow> filters \<Rightarrow> Payload list \<Rightarrow> error + event list \<times> filters" where
  "update_op s node fs payloads =
     (if is_root node then
        bind (foldM (\<lambda>(fs, docs) payload.
                bind (mapM (getitem (data payload)) (model_primary_keys node)) (\<lambda>primary_values.
                bind (filters_append fs (node_table node)
                        (dict_zip (model_primary_keys node) primary_values)) (\<lambda>fs.
                bind (update_doc s payload) (\<lambda>d.
                  Inr (fs, docs @ (case d of None \<Rightarrow> [] | Some x \<Rightarrow> [x]))))))
              (fs, []) payloads)
          (\<lambda>(fs, docs). Inr (if docs \<noteq> [] then [Bulk docs []] else [], fs))
      else
        bind (foldM (\<lambda>fs payload.
                bind (root_primary_key_resolver s node payload []) (\<lambda>rfilters.
                bind (case parent node of
                        None \<Rightarrow> Inr rfilters
                      | Some par \<Rightarrow>
                          bind (lookup_foreign_keys s (Some par) node) (\<lambda>foreign_keys.
                            root_foreign_key_resolver s node payload foreign_keys rfilters))
                  (\<lambda>rfilters.
                    if rfilters \<noteq> [] then filters_extend fs (node_table (root (tree s))) rfilters
                    else Inr fs)))
              fs payloads)
          (\<lambda>fs. Inr ([], fs)))"

text \<open>The delete op of \<open>_delete_op\<close> for one payload of the root table.\<close>

definition delete_doc :: "Sync \<Rightarrow> Payload \<Rightarrow> error + doc" where
  "delete_doc s payload =
     bind (mapM (getitem (data payload)) (model_primary_keys (root (tree s)))) (\<lambda>primary_values.
     bind (get_doc_id s primary_values (node_table (root (tree s)))) (\<lambda>did.
     bind (if routing_set s then
             bind (getitem (data payload) (the (routing s))) (\<lambda>v. Inr (Some v))
           else Inr None) (\<lambda>r.
       Inr \<lparr>doc_id = did, doc_index = index s, doc_op_type = ''delete'',
            doc_routing = r, doc_type = doc_type_of s\<rparr>)))"

definition delete_kwargs :: "Sync \<Rightarrow> (string, bool option) dict" where
  "delete_kwargs s =
     [(''raise_on_exception'', if USE_ASYNC s then Some False else None),
      (''raise_on_error'', if USE_ASYNC s then Some False else None)]"

definition delete_op ::
  "Sync \<Rightarrow> Node \<Rightarrow> filters \<Rightarrow> Payload list \<Rightarrow> error + event list \<times> filters" where
  "delete_op s node fs payloads =
     (if is_root node then
        bind (mapM (delete_doc s) payloads) (\<lambda>docs.
          Inr (if docs \<noteq> [] then [Bulk docs (delete_kwargs s)] else [], fs))
      else
        bind (foldM (\<lambda>fs payload.
                bind (root_primary_key_resolver s node payload []) (\<lambda>rfilters.
                  if rfilters \<noteq> [] then filters_extend fs (node_table (root (tree s))) rfilters
                  else Inr fs))
              fs payloads)
          (\<lambda>fs. Inr ([], fs)))"

definition truncate_op :: "Sync \<Rightarrow> Node \<Rightarrow> filters \<Rightarrow> error + event list \<times> filters" where
  "truncate_op s node fs =
     (if is_root node then
        (let docs = map (\<lambda>did. \<lparr>doc_id = did, doc_index = index s, doc_op_type = ''delete'',
                                 doc_routing = None, doc_type = doc_type_of s\<rparr>)
                      (search s (index s) (node_table node) None)
         in Inr (if docs \<noteq> [] then [Bulk docs []] else [], fs))
      else
        bind (search_filters s (search s (index s) (node_table node) None) []) (\<lambda>rfilters.
          if rfilters \<noteq> [] then
            bind (filters_extend fs (node_table (root (tree s))) rfilters) (\<lambda>fs. Inr ([], fs))
          else Inr ([], fs)))"

subsection \<open>\<open>_payloads\<close>: dispatch and filter execution\<close>

text \<open>
  Modelled from the spec: \<open>chunks\<close> is defined in utils.py, which is not among the
  sources; filters are "chunked by FILTER_CHUNK_SIZE": successive slices of at most
  \<open>n\<close> elements, none for an empty list. A size of zero is a zero step of \<open>range\<close>
  and raises ValueError.
\<close>

function chunk_list :: "nat \<Rightarrow> 'a list \<Rightarrow> 'a list list" where
  "chunk_list n xs = (if n = 0 \<or> xs = [] then [] else take n xs # chunk_list n (drop n xs))"
  by pat_completeness auto
termination
  by (relation "measure (\<lambda>(n, xs). length xs)") auto

declare chunk_list.simps [simp del]

definition chunks :: "'a list \<Rightarrow> nat \<Rightarrow> error + 'a list list" where
  "chunks xs n = (if n = 0 then Inl ValueError else Inr (chunk_list n xs))"

text \<open>\<open>filters.get(k)\<close> where only its truth value and its elements are used.\<close>

definition filters_get :: "filters \<Rightarrow> string \<Rightarrow> row list" where
  "filters_get fs k = (case map_of fs k of None \<Rightarrow> [] | Some l \<Rightarrow> l)"

text \<open>The innermost level of the loops: one chunk of the root slot and one of the node slot.\<close>

definition sync_parent_chunks ::
  "Sync \<Rightarrow> Node \<Rightarrow> filters \<Rightarrow> row list \<Rightarrow> row list \<Rightarrow> error + event list" where
  "sync_parent_chunks s node fs l1 l2 =
     (let root_table = node_table (root (tree s)) in
      if \<not> is_root node then
        (case parent node of
           None \<Rightarrow> Inl AttributeError
         | Some par \<Rightarrow>
             if filters_get fs (node_table par) \<noteq> [] then
               bind (chunks (filters_get fs (node_table par)) (FILTER_CHUNK_SIZE s)) (\<lambda>l3s.
                 Inr (map (\<lambda>l3. SyncFilters
                        (dict_of [(root_table, l1), (node_table node, l2), (node_table par, l3)]))
                      l3s))
             else Inr [SyncFilters (dict_of [(root_table, l1), (node_table node, l2)])])
      else Inr [SyncFilters (dict_of [(root_table, l1), (node_table node, l2)])])"

definition sync_node_chunks ::
  "Sync \<Rightarrow> Node \<Rightarrow> filters \<Rightarrow> row list \<Rightarrow> error + event list" where
  "sync_node_chunks s node fs l1 =
     (if filters_get fs (node_table node) \<noteq> [] then
        bind (chunks (filters_get fs (node_table node)) (FILTER_CHUNK_SIZE s)) (\<lambda>l2s.
        bind (mapM (sync_parent_chunks s node fs l1) l2s) (\<lambda>ess. Inr (concat ess)))
      else Inr [SyncFilters (dict_of [(node_table (root (tree s)), l1)])])"

text \<open>
  The tail of \<open>_payloads\<close>: under \<open>any(filters.values())\<close> the outer loop runs over the
  chunks of the root-table slot.
\<close>

definition run_filters :: "Sync \<Rightarrow> Node \<Rightarrow> filters \<Rightarrow> error + event list" where
  "run_filters s node fs =
     (if list_ex (\<lambda>(k, l). l \<noteq> []) fs then
        (case map_of fs (node_table (root (tree s))) of
           None \<Rightarrow> Inl TypeError
         | Some root_filters \<Rightarrow>
             bind (chunks root_filters (FILTER_CHUNK_SIZE s)) (\<lambda>l1s.
             bind (mapM (sync_node_chunks s node fs) l1s) (\<lambda>ess. Inr (concat ess))))
      else Inr [])"

text \<open>\<open>filters = {node.table: [], root.table: []}\<close>, plus the parent's slot off the root.\<close>

definition initial_filters :: "Sync \<Rightarrow> Node \<Rightarrow> error + filters" where
  "initial_filters s node =
     (let fs = dict_of [(node_table node, []), (node_table (root (tree s)), [])] in
      if \<not> is_root node then
        (case parent node of
           None \<Rightarrow> Inl AttributeError
         | Some par \<Rightarrow> Inr (AList.update (node_table par) [] fs))
      else Inr fs)"

text \<open>
  The four tests on \<open>payload.tg_op\<close>. At that point \<open>payload\<close> is the variable of the
  preceding \<open>for\<close> loop, hence the last payload of the run.
\<close>

definition dispatch ::
  "Sync \<Rightarrow> Node \<Rightarrow> filters \<Rightarrow> Payload list \<Rightarrow> error + event list \<times> filters" where
  "dispatch s node fs payloads =
     (let op = tg_op (last payloads) in
      if op = INSERT then bind (insert_op s node fs payloads) (\<lambda>fs. Inr ([], fs))
      else if op = UPDATE then update_op s node fs payloads
      else if op = DELETE then delete_op s node fs payloads
      else if op = TRUNCATE then truncate_op s node fs
      else Inr ([], fs))"

text \<open>
  The part of \<open>_payloads\<close> before the filters are executed: the node, the direct bulk
  calls made by the operation, and the filter set it leaves. \<open>None\<close> is the early
  \<open>return\<close> for a table or schema outside the tree.
\<close>

definition resolve ::
  "Sync \<Rightarrow> Payload list \<Rightarrow> error + (Node \<times> event list \<times> filters) option" where
  "resolve s payloads =
     (case payloads of
        [] \<Rightarrow> Inl IndexError
      | payload # _ \<Rightarrow>
          if tg_op payload \<notin> set TG_OP then Inl InvalidTGOPError
          else if table payload \<notin> set (tables (tree s)) \<or> schema payload \<notin> set (schemas (tree s))
          then Inr None
          else
            (let node = get_node (tree s) (table payload) (schema payload) in
             if list_ex (\<lambda>p. data p \<noteq> [] \<and>
                              \<not> set (model_primary_keys node) \<subseteq> set (map fst (data p))) payloads
             then Inl RuntimeError
             else
               bind (initial_filters s node) (\<lambda>fs.
               bind (dispatch s node fs payloads) (\<lambda>(events, fs).
                 Inr (Some (node, events, fs))))))"

definition Sync_payloads :: "Sync \<Rightarrow> Payload list \<Rightarrow> error + event list" where
  "Sync_payloads s payloads =
     bind (resolve s payloads) (\<lambda>r.
       case r of
         None \<Rightarrow> Inr []
       | Some (node, events, fs) \<Rightarrow>
           bind (run_filters s node fs) (\<lambda>syncs. Inr (events @ syncs)))"

subsection \<open>The checkpoint property of \<open>Sync\<close>\<close>

definition set_value :: "int option \<Rightarrow> Checkpoint \<Rightarrow> (error + unit) \<times> Checkpoint" where
  "set_value v cp =
     (case cp of
        File fc \<Rightarrow> (case FileCheckpoint_set_value v fc of (r, fc') \<Rightarrow> (r, File fc'))
      | Redis rc \<Rightarrow> (case RedisCheckpoint_set_value v rc of (r, rc') \<Rightarrow> (r, Redis rc')))"

definition get_value :: "Checkpoint \<Rightarrow> (error + int option) \<times> Checkpoint" where
  "get_value cp =
     (case cp of
        File fc \<Rightarrow> (case FileCheckpoint_get_value fc of (r, fc') \<Rightarrow> (r, File fc'))
      | Redis rc \<Rightarrow> (case RedisCheckpoint_get_value rc of (r, rc') \<Rightarrow> (r, Redis rc')))"

subsection \<open>The consumer: \<open>_on_publish\<close>\<close>

text \<open>A payload on a base table of a view node is renamed to the node's table.\<close>

definition substitute_base_table :: "Sync \<Rightarrow> Payload \<Rightarrow> Payload" where
  "substitute_base_table s p =
     foldl (\<lambda>p node. if table p \<in> set (base_tables node) then p\<lparr>table := node_table node\<rparr> else p)
       p (traverse_breadth_first (tree s))"

text \<open>All-INSERT batches are grouped by table, in the order tables first appear.\<close>

definition group_by_table :: "Payload list \<Rightarrow> (string, Payload list) dict" where
  "group_by_table ps = foldl (\<lambda>d p. dd_append (table p) p d) [] ps"

text \<open>
  Other batches are cut where \<open>tg_op\<close> or \<open>table\<close> changes; the first argument is the
  run collected so far.
\<close>

fun runs :: "Payload list \<Rightarrow> Payload list \<Rightarrow> Payload list list" where
  "runs acc [] = []"
| "runs acc [p] = [acc @ [p]]"
| "runs acc (p # q # ps) =
     (if tg_op p \<noteq> tg_op q \<or> table p \<noteq> table q then (acc @ [p]) # runs [] (q # ps)
      else runs (acc @ [p]) (q # ps))"

text \<open>
  The last two statements of \<open>_on_publish\<close>. \<open>min\<close> of an empty set raises ValueError;
  \<open>min\<close> of a set holding \<open>None\<close> and an integer compares the two and raises TypeError.
\<close>

definition advance_checkpoint ::
  "int \<Rightarrow> int option list \<Rightarrow> Checkpoint \<Rightarrow> (error + unit) \<times> Checkpoint" where
  "advance_checkpoint txid_current xmins cp =
     (let txids = set xmins in
      if txids \<noteq> {None} then
        if txids = {} then (Inl ValueError, cp)
        else if None \<in> txids then (Inl TypeError, cp)
        else set_value (Some (min (Min (the ` txids)) txid_current - 1)) cp
      else (Inr (), cp))"

text \<open>
  \<open>_on_publish\<close>; \<open>txid_current\<close> is what the database answers to the one read of
  \<open>self.txid_current\<close>. Each group is handed to \<open>_payloads\<close> in turn, and the first
  exception ends the method before the checkpoint is touched.
\<close>

definition on_publish :: "Sync \<Rightarrow> int \<Rightarrow> Payload list \<Rightarrow> (error + event list) \<times> Sync" where
  "on_publish s txid_current payloads0 =
     (let payloads = map (substitute_base_table s) payloads0;
          groups = (if set (map tg_op payloads) = {INSERT} then map snd (group_by_table payloads)
                    else runs [] payloads)
      in case mapM (Sync_payloads s) groups of
           Inl e \<Rightarrow> (Inl e, s)
         | Inr ess \<Rightarrow>
             (case advance_checkpoint txid_current (map xmin payloads) (checkpoint s) of
                (Inl e, cp) \<Rightarrow> (Inl e, s\<lparr>checkpoint := cp\<rparr>)
              | (Inr u, cp) \<Rightarrow> (Inr (concat ess), s\<lparr>checkpoint := cp\<rparr>)))"

subsection \<open>The logical replication slot: \<open>logical_slot_changes\<close>, \<open>pull\<close>, \<open>_truncate_slots\<close>\<close>

record change =
  xid :: int
  change_data :: string

definition starts_with :: "string \<Rightarrow> string \<Rightarrow> bool" where
  "starts_with pre str = (take (length pre) str = pre)"

text \<open>
  The \<open>for i, row in enumerate(rows)\<close> loop: \<open>acc\<close> is the list \<open>payloads\<close>, the second
  list the rows from \<open>rows[i]\<close> on.
\<close>

fun process_rows :: "Sync \<Rightarrow> Payload list \<Rightarrow> change list \<Rightarrow> error + event list" where
  "process_rows s acc [] = Inr []"
| "process_rows s acc (r # rest) =
     (case parse_logical_slot s (change_data r) of
        Inl e \<Rightarrow> Inl e
      | Inr payload \<Rightarrow>
          if schema payload \<notin> set (schemas (tree s)) then process_rows s acc rest
          else
            (case rest of
               [] \<Rightarrow> Sync_payloads s (acc @ [payload])
             | r2 # _ \<Rightarrow>
                 (case parse_logical_slot s (change_data r2) of
                    Inl e \<Rightarrow> Inl e
                  | Inr payload2 \<Rightarrow>
                      if tg_op payload \<noteq> tg_op payload2 \<or> table payload \<noteq> table payload2 then
                        (case Sync_payloads s (acc @ [payload]) of
                           Inl e \<Rightarrow> Inl e
                         | Inr es \<Rightarrow>
                             (case process_rows s [] rest of
                                Inl e \<Rightarrow> Inl e
                              | Inr es' \<Rightarrow> Inr (es @ es')))
                      else process_rows s (acc @ [payload]) rest)))"

text \<open>
  The \<open>while True\<close> loop. The third argument lists the answers of the slot to the
  successive peeks; after them the slot answers with no changes, which ends the loop.
  The first component of the result is every call made on the slot, in order, also
  when the loop is left by an exception.
\<close>

fun logical_slot_changes ::
  "Sync \<Rightarrow> bounds \<Rightarrow> change list list \<Rightarrow> slot_call list \<times> (error + event list)" where
  "logical_slot_changes s b [] = ([Peek b], Inr [])"
| "logical_slot_changes s b (changes # answers) =
     (if changes = [] then ([Peek b], Inr [])
      else
        (let rows = filter (\<lambda>r. \<not> (starts_with ''BEGIN'' (change_data r)
                                   \<or> starts_with ''COMMIT'' (change_data r))) changes
         in case process_rows s [] rows of
              Inl e \<Rightarrow> ([Peek b], Inl e)
            | Inr es \<Rightarrow>
                (case logical_slot_changes s b answers of
                   (calls, r) \<Rightarrow>
                     (Peek b # Get b # calls,
                      case r of Inl e \<Rightarrow> Inl e | Inr es' \<Rightarrow> Inr (es @ es')))))"

text \<open>
  \<open>pull\<close>; \<open>txid1\<close> and \<open>txid2\<close> are the database's answers to the first and, when it
  happens, the second read of \<open>txid_current\<close>, \<open>lsn\<close> its current WAL position.
\<close>

definition pull ::
  "Sync \<Rightarrow> int \<Rightarrow> int \<Rightarrow> string \<Rightarrow> change list list
     \<Rightarrow> (slot_call list \<times> (error + event list)) \<times> Sync" where
  "pull s txid1 txid2 lsn answers =
     (case get_value (checkpoint s) of
        (Inl e, cp) \<Rightarrow> (([], Inl e), s\<lparr>checkpoint := cp\<rparr>)
      | (Inr tmin, cp) \<Rightarrow>
          (let s1 = s\<lparr>checkpoint := cp\<rparr>;
               b = \<lparr>txmin = tmin, txmax = Some txid1,
                    upto_nchanges = Some (LOGICAL_SLOT_CHUNK_SIZE s), upto_lsn = Some lsn\<rparr>
           in case logical_slot_changes s1 b answers of
                (calls, Inl e) \<Rightarrow> ((calls, Inl e), s1)
              | (calls, Inr es) \<Rightarrow>
                  (case set_value (Some (if txid1 \<noteq> 0 then txid1 else txid2)) (checkpoint s1) of
                     (Inl e, cp') \<Rightarrow> ((calls, Inl e), s1\<lparr>checkpoint := cp'\<rparr>)
                   | (Inr u, cp') \<Rightarrow>
                       ((calls, Inr (SyncTx tmin (Some txid1) # es)),
                        s1\<lparr>checkpoint := cp', truncate_flag := True\<rparr>))))"

text \<open>
  Modelled from the spec: the default arguments of \<open>logical_slot_get_changes\<close> are
  declared in base.py, which is not among the sources. The call passes
  \<open>upto_nchanges=None\<close> only, and the spec has the truncation worker advance the slot
  "with no upper bound": every bound is \<open>None\<close>.
\<close>

definition truncate_slots :: "Sync \<Rightarrow> slot_call list" where
  "truncate_slots s =
     (if truncate_flag s
      then [Get \<lparr>txmin = None, txmax = None, upto_nchanges = None, upto_lsn = None\<rparr>]
      else [])"

text \<open>
  A trace of slot calls in which every \<open>Get\<close> has the bounds of the latest \<open>Peek\<close>
  before it; the first argument is the bounds of the latest peek so far, if any.
\<close>

fun advance_follows_peek :: "bounds option \<Rightarrow> slot_call list \<Rightarrow> bool" where
  "advance_follows_peek last_peek [] = True"
| "advance_follows_peek last_peek (Peek b # calls) = advance_follows_peek (Some b) calls"
| "advance_follows_peek last_peek (Get b # calls) =
     (last_peek = Some b \<and> advance_follows_peek last_peek calls)"

subsection \<open>The name of a sync (\<open>Sync.__init__\<close>)\<close>

text \<open>
  A Python string is a sequence of Unicode code points. \<open>str.lower\<close> is Unicode's
  lowercase mapping, a table outside the sources, and is a parameter. \<open>name_char\<close> is
  the class \<open>[0-9a-zA-Z_]\<close> by code point, \<open>re_sub_name\<close> is
  \<open>re.sub("[^0-9a-zA-Z_]+", "", s)\<close>.
\<close>

type_synonym pystr = "nat list"

definition name_char :: "nat \<Rightarrow> bool" where
  "name_char c = ((48 \<le> c \<and> c \<le> 57) \<or> (97 \<le> c \<and> c \<le> 122) \<or> (65 \<le> c \<and> c \<le> 90) \<or> c = 95)"

definition re_sub_name :: "pystr \<Rightarrow> pystr" where
  "re_sub_name s = filter name_char s"

definition sync_name :: "(pystr \<Rightarrow> pystr) \<Rightarrow> pystr \<Rightarrow> pystr \<Rightarrow> pystr" where
  "sync_name lower database idx = take 63 (re_sub_name (lower database @ [95] @ idx))"

text \<open>The code points of an ASCII literal, and lowercasing on ASCII, to write examples.\<close>

definition code_points :: "string \<Rightarrow> pystr" where
  "code_points s = map of_char s"

definition ascii_lower :: "pystr \<Rightarrow> pystr" where
  "ascii_lower s = map (\<lambda>c. if 65 \<le> c \<and> c \<le> 90 then c + 32 else c) s"

section \<open>Statements and examples\<close>

subsection \<open>Deleting root rows\<close>

text \<open>
  The bulk-delete op the specification describes for a payload of the root table, and
  the payloads for which no lookup of \<open>_delete_op\<close> raises: the root has a primary
  key, the payload's data holds every primary-key column and, with routing configured,
  the routing column.
\<close>

definition expected_delete_doc :: "Sync \<Rightarrow> Payload \<Rightarrow> doc" where
  "expected_delete_doc s p =
     \<lparr>doc_id = join (PRIMARY_KEY_DELIMITER s)
                 (map (\<lambda>k. py_str (the (map_of (data p) k))) (model_primary_keys (root (tree s)))),
      doc_index = index s,
      doc_op_type = ''delete'',
      doc_routing = (if routing_set s then map_of (data p) (the (routing s)) else None),
      doc_type = doc_type_of s\<rparr>"

definition delete_ready :: "Sync \<Rightarrow> Payload \<Rightarrow> bool" where
  "delete_ready s p =
     (model_primary_keys (root (tree s)) \<noteq> [] \<and>
      set (model_primary_keys (root (tree s))) \<subseteq> fst ` set (data p) \<and>
      (routing_set s \<longrightarrow> the (routing s) \<in> fst ` set (data p)))"

text \<open>
  The tree of the specification's scenarios, one level deeper: root \<open>book(id)\<close>, its
  child \<open>author(id)\<close> and the grandchild \<open>city(id)\<close>; an index without documents.
\<close>

definition book_node :: Node where
  "book_node = Node ''book'' ''public'' ''book'' True [''id''] [''id''] [''book''] None"

definition author_node :: Node where
  "author_node = Node ''author'' ''public'' ''author'' False [''id''] [''id''] [''author'']
     (Some book_node)"

definition city_node :: Node where
  "city_node = Node ''city'' ''public'' ''city'' False [''id''] [''id''] [''city'']
     (Some author_node)"

definition demo_tree :: Tree where
  "demo_tree =
     \<lparr>root = book_node,
      tables = [''book'', ''author'', ''city''],
      schemas = [''public''],
      get_node = (\<lambda>t sch. if t = ''author'' then author_node
                            else if t = ''city'' then city_node else book_node),
      traverse_breadth_first = [book_node, author_node, city_node]\<rparr>"

definition demo_fkeys :: "Node option \<Rightarrow> Node \<Rightarrow> error + fkeys" where
  "demo_fkeys par node =
     (if node_name node = ''city'' then Inr [(''author'', [''id'']), (''city'', [''author_id''])]
      else Inr [(''book'', [''author_id'']), (''author'', [''id''])])"

definition demo_sync :: Sync where
  "demo_sync =
     \<lparr>index = ''books'',
      routing = None,
      tree = demo_tree,
      major_version = 8,
      is_opensearch = False,
      search = (\<lambda>idx tbl fields. []),
      get_foreign_keys = demo_fkeys,
      get_foreign_keys_alt = demo_fkeys,
      foreign_key_constraint = (\<lambda>p node. []),
      parse_logical_slot = (\<lambda>line. Inl ValueError),
      PRIMARY_KEY_DELIMITER = ''|'',
      USE_ASYNC = False,
      FILTER_CHUNK_SIZE = 5000,
      LOGICAL_SLOT_CHUNK_SIZE = 5000,
      checkpoint = File \<lparr>fc_checkpoint = Some 100, fc_file = Some ''100'',
                          fc_can_write = True, fc_can_read = True\<rparr>,
      truncate_flag = False\<rparr>"

definition delete_book_8 :: Payload where
  "delete_book_8 =
     \<lparr>tg_op = ''DELETE'', schema = ''public'', table = ''book'',
      old = [(''id'', PyInt 8)], new = [], xmin = Some 103\<rparr>"

definition delete_book_9 :: Payload where
  "delete_book_9 =
     \<lparr>tg_op = ''DELETE'', schema = ''public'', table = ''book'',
      old = [(''id'', PyInt 9)], new = [], xmin = Some 103\<rparr>"

text \<open>The same index with documents routed by a column \<open>tenant\<close>, which the payload of a
  deleted row does not carry.\<close>

definition tenant_sync :: Sync where
  "tenant_sync = demo_sync\<lparr>routing := Some ''tenant''\<rparr>"

text \<open>The same index with documents routed by the column \<open>id\<close>, and a root row whose
  primary key changes.\<close>

definition routed_sync :: Sync where
  "routed_sync = demo_sync\<lparr>routing := Some ''id''\<rparr>"

definition update_book_7_8 :: Payload where
  "update_book_7_8 =
     \<lparr>tg_op = ''UPDATE'', schema = ''public'', table = ''book'',
      old = [(''id'', PyInt 7)], new = [(''id'', PyInt 8), (''author_id'', PyInt 3)],
      xmin = Some 102\<rparr>"

subsection \<open>Executing filters\<close>

text \<open>A call of \<open>sync\<close> with a filter set that has at least one slot and no empty slot.\<close>

definition nonempty_filter_call :: "event \<Rightarrow> bool" where
  "nonempty_filter_call e =
     (case e of
        SyncFilters f \<Rightarrow> f \<noteq> [] \<and> list_all (\<lambda>(k, l). l \<noteq> []) f
      | _ \<Rightarrow> False)"

text \<open>
  A query builder whose foreign-key columns have the same name on both sides, and the
  insertion of a \<open>city\<close> row, two levels below the root.
\<close>

definition shared_fk_sync :: Sync where
  "shared_fk_sync =
     demo_sync\<lparr>get_foreign_keys :=
       (\<lambda>par node. Inr [(''author'', [''author_id'']), (''city'', [''author_id''])])\<rparr>"

definition insert_city_9 :: Payload where
  "insert_city_9 =
     \<lparr>tg_op = ''INSERT'', schema = ''public'', table = ''city'',
      old = [], new = [(''id'', PyInt 9), (''author_id'', PyInt 5)], xmin = Some 105\<rparr>"

text \<open>
  A query builder whose preferred lookup raises ForeignKeyError while the alternative
  one answers, with foreign-key columns of the same name on both sides, and the
  insertion of an \<open>author\<close> row.
\<close>

definition fallback_sync :: Sync where
  "fallback_sync =
     demo_sync\<lparr>get_foreign_keys := (\<lambda>par node. Inl ForeignKeyError),
               get_foreign_keys_alt :=
                 (\<lambda>par node. Inr [(''book'', [''author_id'']), (''author'', [''author_id''])])\<rparr>"

definition insert_author_4 :: Payload where
  "insert_author_4 =
     \<lparr>tg_op = ''INSERT'', schema = ''public'', table = ''author'',
      old = [], new = [(''id'', PyInt 4), (''author_id'', PyInt 4)], xmin = Some 107\<rparr>"

subsection \<open>Checkpoints and slot calls\<close>

text \<open>
  The integer a checkpoint backend holds, which is what \<open>get_value\<close> returns when it
  does not raise: the content of the file (the cached value when there is no file), or
  the value under the key.
\<close>

definition stored :: "Checkpoint \<Rightarrow> int option" where
  "stored cp =
     (case cp of
        File fc \<Rightarrow>
          (case fc_file fc of
             None \<Rightarrow> fc_checkpoint fc
           | Some content \<Rightarrow> (case int_str content of Inl e \<Rightarrow> None | Inr v \<Rightarrow> Some v))
      | Redis rc \<Rightarrow>
          (case rc_store rc (rc_key rc) of
             None \<Rightarrow> None
           | Some content \<Rightarrow> (case int_str content of Inl e \<Rightarrow> None | Inr v \<Rightarrow> Some v)))"

text \<open>A batch that mixes the truncation of \<open>book\<close> with the insertion of a row.\<close>

definition truncate_book :: Payload where
  "truncate_book =
     \<lparr>tg_op = ''TRUNCATE'', schema = ''public'', table = ''book'',
      old = [], new = [], xmin = None\<rparr>"

definition insert_book_10 :: Payload where
  "insert_book_10 =
     \<lparr>tg_op = ''INSERT'', schema = ''public'', table = ''book'',
      old = [], new = [(''id'', PyInt 10), (''author_id'', PyInt 3)], xmin = Some 110\<rparr>"

subsection \<open>Sequences of checkpoint writes\<close>

text \<open>
  The two operations that write the checkpoint, with what the database answers during
  each: a \<open>pull\<close> (two readings of \<open>txid_current\<close>, the WAL position, the answers of
  the slot) and a batch consumed by \<open>_on_publish\<close> (one reading of \<open>txid_current\<close>,
  the payloads). \<open>run\<close> is a sequence of such operations, each of which succeeds.
\<close>

datatype step =
    PullStep int int string "change list list"
  | BatchStep int "Payload list"

definition run_step :: "Sync \<Rightarrow> step \<Rightarrow> Sync option" where
  "run_step s st =
     (case st of
        PullStep txid1 txid2 lsn answers \<Rightarrow>
          (case pull s txid1 txid2 lsn answers of
             ((calls, Inr es), s') \<Rightarrow> Some s'
           | ((calls, Inl e), s') \<Rightarrow> None)
      | BatchStep txid_current payloads \<Rightarrow>
          (case on_publish s txid_current payloads of
             (Inr es, s') \<Rightarrow> Some s'
           | (Inl e, s') \<Rightarrow> None))"

fun run :: "Sync \<Rightarrow> step list \<Rightarrow> Sync option" where
  "run s [] = Some s"
| "run s (st # sts) = (case run_step s st of None \<Rightarrow> None | Some s' \<Rightarrow> run s' sts)"

text \<open>
  A step is fresh for a stored checkpoint \<open>c\<close> when the transaction ids it brings are
  not behind \<open>c\<close>: the id a pull stores is at least \<open>c\<close>; every xmin of a batch and the
  current transaction id are above \<open>c\<close>.
\<close>

definition step_fresh :: "int \<Rightarrow> step \<Rightarrow> bool" where
  "step_fresh c st =
     (case st of
        PullStep txid1 txid2 lsn answers \<Rightarrow> c \<le> (if txid1 \<noteq> 0 then txid1 else txid2)
      | BatchStep txid_current payloads \<Rightarrow>
          c < txid_current \<and> list_all (\<lambda>p. case xmin p of None \<Rightarrow> True | Some x \<Rightarrow> c < x) payloads)"

fun fresh_run :: "Sync \<Rightarrow> step list \<Rightarrow> bool" where
  "fresh_run s [] = True"
| "fresh_run s (st # sts) =
     ((case stored (checkpoint s) of None \<Rightarrow> True | Some c \<Rightarrow> step_fresh c st) \<and>
      (case run_step s st of None \<Rightarrow> True | Some s' \<Rightarrow> fresh_run s' sts))"

definition insert_book_150 :: Payload where
  "insert_book_150 =
     \<lparr>tg_op = ''INSERT'', schema = ''public'', table = ''book'',
      old = [], new = [(''id'', PyInt 11), (''author_id'', PyInt 3)], xmin = Some 150\<rparr>"

definition insert_book_210 :: Payload where
  "insert_book_210 =
     \<lparr>tg_op = ''INSERT'', schema = ''public'', table = ''book'',
      old = [], new = [(''id'', PyInt 12), (''author_id'', PyInt 3)], xmin = Some 210\<rparr>"

section \<open>Properties of the checkpoint store\<close>

lemma is_digit_digit_char: "d < 10 \<Longrightarrow> is_digit (digit_char d)"
  by (simp add: is_digit_def digit_char_def)

lemma digit_val_digit_char: "d < 10 \<Longrightarrow> digit_val (digit_char d) = d"
  by (simp add: digit_val_def digit_char_def)

lemma parse_digits_all: "list_all is_digit cs \<Longrightarrow> parse_digits acc cs = Some (foldl shift acc cs)"
  by (induction acc cs rule: parse_digits.induct) auto

lemma str_nat_digits: "list_all is_digit (str_nat n)"
proof (induction n rule: str_nat.induct)
  case (1 n)
  then show ?case
    by (subst str_nat.simps) (auto simp: is_digit_digit_char)
qed

lemma str_nat_value: "foldl shift 0 (str_nat n) = n"
proof (induction n rule: str_nat.induct)
  case (1 n)
  then show ?case
    by (subst str_nat.simps) (auto simp: digit_val_digit_char)
qed

lemma str_nat_not_Nil: "str_nat n \<noteq> []"
  by (subst str_nat.simps) simp

lemma strip_no_space:
  assumes "s \<noteq> []" "\<not> is_space (hd s)" "\<not> is_space (last s)"
  shows "strip s = s"
proof -
  from assms obtain c r where s: "s = c # r" by (cases s) auto
  with assms have a: "dropWhile is_space s = s" by simp
  from assms have "rev s \<noteq> []" "\<not> is_space (hd (rev s))"
    by (simp_all add: hd_rev)
  then have "dropWhile is_space (rev s) = rev s"
    by (cases "rev s") auto
  with a show ?thesis by (simp add: strip_def)
qed

lemma digit_not_space: "is_digit c \<Longrightarrow> \<not> is_space c"
  by (auto simp: is_digit_def is_space_def)

lemma int_str_str_int: "int_str (str_int v) = Inr v"
proof -
  obtain d ds where dds: "str_nat (nat \<bar>v\<bar>) = d # ds"
    using str_nat_not_Nil by (cases "str_nat (nat \<bar>v\<bar>)") auto
  have dig: "list_all is_digit (d # ds)"
    using str_nat_digits [of "nat \<bar>v\<bar>"] dds by simp
  then have d: "is_digit d" by simp
  have lastd: "is_digit (last (d # ds))"
    using dig by (metis last_in_set list.distinct(1) list_all_iff)
  have val: "parse_digits (digit_val d) ds = Some (nat \<bar>v\<bar>)"
    using parse_digits_all [of ds "digit_val d"] dig str_nat_value [of "nat \<bar>v\<bar>"] dds by simp
  have dsign: "d \<noteq> CHR ''-''" "d \<noteq> CHR ''+''"
    using d by (auto simp: is_digit_def)
  have nsl: "\<not> is_space (last (d # ds))"
    using lastd by (rule digit_not_space)
  have nsd: "\<not> is_space d"
    using d by (rule digit_not_space)
  show ?thesis
  proof (cases "v < 0")
    case True
    then have s: "str_int v = CHR ''-'' # d # ds"
      using dds by (simp add: str_int_def abs_if)
    have "strip (CHR ''-'' # d # ds) = CHR ''-'' # d # ds"
      using nsl by (intro strip_no_space) (simp_all add: is_space_def)
    then show ?thesis
      using True s d val by (simp add: int_str_def)
  next
    case False
    then have s: "str_int v = d # ds"
      using dds by (simp add: str_int_def abs_if)
    have "strip (d # ds) = d # ds"
      using nsl nsd by (intro strip_no_space) simp_all
    then show ?thesis
      using False s d val dsign by (simp add: int_str_def)
  qed
qed

text \<open>
  Claim C9. On both checkpoint backends (file and shared key-value store), \<open>set_value\<close>
  called with \<open>None\<close> raises ValueError and leaves the object, the file and the
  stored key exactly as they were.
\<close>

theorem set_value_None_rejected:
  "FileCheckpoint_set_value None fc = (Inl ValueError, fc) \<and>
   RedisCheckpoint_set_value None rc = (Inl ValueError, rc)"
  by (simp add: FileCheckpoint_set_value_def RedisCheckpoint_set_value_def)

text \<open>
  Claim C10. Round trip of the file checkpoint: for every integer \<open>v\<close>, negative ones
  included, once \<open>set_value(v)\<close> has succeeded, \<open>get_value()\<close> on a file that can be
  opened for reading returns exactly \<open>v\<close> and changes nothing.
\<close>

theorem FileCheckpoint_round_trip:
  assumes "FileCheckpoint_set_value (Some v) st = (Inr (), st')"
    and "fc_can_read st'"
  shows "FileCheckpoint_get_value st' = (Inr (Some v), st')"
proof -
  from assms(1) have st': "st' = st\<lparr>fc_file := Some (str_int v), fc_checkpoint := Some v\<rparr>"
    by (auto simp: FileCheckpoint_set_value_def split: if_splits)
  with assms(2) show ?thesis
    by (simp add: FileCheckpoint_get_value_def int_str_str_int)
qed

theorem FileCheckpoint_round_trip_witness:
  "FileCheckpoint_set_value (Some (- 42))
       \<lparr>fc_checkpoint = Some 7, fc_file = Some ''7'', fc_can_write = True, fc_can_read = True\<rparr>
     = (Inr (), \<lparr>fc_checkpoint = Some (- 42), fc_file = Some ''-42'',
                   fc_can_write = True, fc_can_read = True\<rparr>) \<and>
   FileCheckpoint_get_value
       \<lparr>fc_checkpoint = Some (- 42), fc_file = Some ''-42'', fc_can_write = True, fc_can_read = True\<rparr>
     = (Inr (Some (- 42)), \<lparr>fc_checkpoint = Some (- 42), fc_file = Some ''-42'',
                   fc_can_write = True, fc_can_read = True\<rparr>)"
proof -
  have h: "FileCheckpoint_set_value (Some (- 42))
       \<lparr>fc_checkpoint = Some 7, fc_file = Some ''7'', fc_can_write = True, fc_can_read = True\<rparr>
     = (Inr (), \<lparr>fc_checkpoint = Some (- 42), fc_file = Some ''-42'',
                   fc_can_write = True, fc_can_read = True\<rparr>)"
    by code_simp
  show ?thesis
    using h FileCheckpoint_round_trip [OF h] by simp
qed

section \<open>The name of a sync\<close>

text \<open>
  Claim C7. For every pair of a database and an index name, the derived sync name is a
  function of the two (whatever Unicode's lowercase mapping is), holds only characters
  of \<open>[0-9A-Za-z_]\<close>, and has between 1 and 63 characters, each of one byte.
\<close>

theorem sync_name_shape:
  "list_all name_char (sync_name lower database idx) \<and>
   1 \<le> length (sync_name lower database idx) \<and>
   length (sync_name lower database idx) \<le> 63"
proof -
  have "95 \<in> set (re_sub_name (lower database @ [95] @ idx))"
    by (simp add: re_sub_name_def name_char_def)
  then have "re_sub_name (lower database @ [95] @ idx) \<noteq> []"
    by auto
  then have "sync_name lower database idx \<noteq> []"
    by (simp add: sync_name_def)
  then have "1 \<le> length (sync_name lower database idx)"
    by (cases "sync_name lower database idx") simp_all
  moreover have "length (sync_name lower database idx) \<le> 63"
    by (simp add: sync_name_def)
  moreover have "list_all name_char (sync_name lower database idx)"
    by (auto simp: sync_name_def re_sub_name_def list_all_iff dest: in_set_takeD)
  ultimately show ?thesis by blast
qed

lemma sync_name_example:
  "sync_name ascii_lower (code_points ''My-DB'') (code_points ''books.v1'')
     = code_points ''mydb_booksv1''"
  by code_simp

section \<open>DELETE on the root table\<close>

lemma mapM_Inr_map: "(\<And>x. x \<in> set xs \<Longrightarrow> f x = Inr (g x)) \<Longrightarrow> mapM f xs = Inr (map g xs)"
  by (induction xs) simp_all

lemma mapM_Inl: "x \<in> set xs \<Longrightarrow> f x = Inl e \<Longrightarrow> \<exists>e'. mapM f xs = Inl e'"
proof (induction xs)
  case Nil
  then show ?case by simp
next
  case (Cons a xs)
  show ?case
  proof (cases "f a")
    case (Inl e0)
    then show ?thesis by simp
  next
    case (Inr y)
    with Cons have "x \<in> set xs" by auto
    with Cons obtain e' where "mapM f xs = Inl e'" by blast
    with Inr show ?thesis by simp
  qed
qed

lemma getitem_in: "k \<in> fst ` set d \<Longrightarrow> getitem d k = Inr (the (map_of d k))"
  by (auto simp: getitem_def map_of_eq_None_iff split: option.splits)

lemma getitem_notin: "k \<notin> fst ` set d \<Longrightarrow> getitem d k = Inl KeyError"
  by (auto simp: getitem_def map_of_eq_None_iff split: option.splits)

lemma getitem_Inr_iff: "(\<exists>v. getitem d k = Inr v) \<longleftrightarrow> k \<in> fst ` set d"
  by (cases "k \<in> fst ` set d") (simp_all add: getitem_in getitem_notin)

lemma delete_doc_ready: "delete_ready s p \<Longrightarrow> delete_doc s p = Inr (expected_delete_doc s p)"
proof -
  assume r: "delete_ready s p"
  let ?pks = "model_primary_keys (root (tree s))"
  have vals: "mapM (getitem (data p)) ?pks = Inr (map (\<lambda>k. the (map_of (data p) k)) ?pks)"
    using r by (intro mapM_Inr_map getitem_in) (auto simp: delete_ready_def)
  have ne: "map (\<lambda>k. the (map_of (data p) k)) ?pks \<noteq> []"
    using r by (simp add: delete_ready_def)
  show ?thesis
  proof (cases "routing_set s")
    case True
    with r have "the (routing s) \<in> fst ` set (data p)" by (simp add: delete_ready_def)
    then have g: "getitem (data p) (the (routing s)) = Inr (the (map_of (data p) (the (routing s))))"
      by (rule getitem_in)
    moreover from \<open>the (routing s) \<in> fst ` set (data p)\<close>
    have "map_of (data p) (the (routing s)) \<noteq> None"
      by (simp add: map_of_eq_None_iff)
    ultimately show ?thesis
      using True vals ne
      by (auto simp: delete_doc_def get_doc_id_def expected_delete_doc_def o_def)
  next
    case False
    then show ?thesis
      using vals ne by (simp add: delete_doc_def get_doc_id_def expected_delete_doc_def o_def)
  qed
qed

lemma delete_doc_not_ready: "\<not> delete_ready s p \<Longrightarrow> \<exists>e. delete_doc s p = Inl e"
proof -
  assume n: "\<not> delete_ready s p"
  let ?pks = "model_primary_keys (root (tree s))"
  show ?thesis
  proof (cases "mapM (getitem (data p)) ?pks")
    case (Inl e)
    then show ?thesis by (simp add: delete_doc_def)
  next
    case (Inr vals)
    have sub: "set ?pks \<subseteq> fst ` set (data p)"
    proof (rule ccontr)
      assume "\<not> set ?pks \<subseteq> fst ` set (data p)"
      then obtain k where "k \<in> set ?pks" "k \<notin> fst ` set (data p)" by blast
      then have "\<exists>e'. mapM (getitem (data p)) ?pks = Inl e'"
        by (intro mapM_Inl [where x = k]) (auto simp: getitem_notin)
      with Inr show False by simp
    qed
    then have "mapM (getitem (data p)) ?pks = Inr (map (\<lambda>k. the (map_of (data p) k)) ?pks)"
      by (intro mapM_Inr_map getitem_in) auto
    with Inr have vals: "vals = map (\<lambda>k. the (map_of (data p) k)) ?pks"
      by simp
    show ?thesis
    proof (cases "?pks = []")
      case True
      with Inr vals show ?thesis by (simp add: delete_doc_def get_doc_id_def)
    next
      case False
      with n sub have rs: "routing_set s" and nr: "the (routing s) \<notin> fst ` set (data p)"
        by (auto simp: delete_ready_def)
      from nr have "getitem (data p) (the (routing s)) = Inl KeyError" by (rule getitem_notin)
      with Inr vals False rs show ?thesis by (simp add: delete_doc_def get_doc_id_def)
    qed
  qed
qed

lemma initial_filters_root:
  "is_root node \<Longrightarrow> node = root (tree s) \<Longrightarrow>
   initial_filters s node = Inr [(node_table (root (tree s)), [])]"
  by (simp add: initial_filters_def dict_of_def)

lemma run_filters_all_empty: "run_filters s node [(t, [])] = Inr []"
  by (simp add: run_filters_def)

lemma tg_op_consts:
  "DELETE \<noteq> INSERT" "DELETE \<noteq> UPDATE" "UPDATE \<noteq> INSERT" "DELETE \<in> set TG_OP"
  "UPDATE \<in> set TG_OP" "INSERT \<in> set TG_OP"
  by (simp_all add: DELETE_def INSERT_def UPDATE_def TG_OP_def)

lemma resolve_in_tree:
  assumes "ps \<noteq> []" "tg_op (hd ps) \<in> set TG_OP"
    "table (hd ps) \<in> set (tables (tree s))" "schema (hd ps) \<in> set (schemas (tree s))"
    "get_node (tree s) (table (hd ps)) (schema (hd ps)) = node"
  shows "resolve s ps =
      (if (\<exists>p\<in>set ps. data p \<noteq> [] \<and> \<not> set (model_primary_keys node) \<subseteq> fst ` set (data p))
       then Inl RuntimeError
       else bind (initial_filters s node) (\<lambda>fs.
            bind (dispatch s node fs ps) (\<lambda>(events, fs). Inr (Some (node, events, fs)))))"
proof -
  obtain p0 rest where ps: "ps = p0 # rest"
    using assms(1) by (cases ps) auto
  show ?thesis
    using assms(2-5) unfolding ps resolve_def list.case list.sel Let_def list_ex_iff
    by (simp only: if_False if_True simp_thms set_map)
qed

lemma dispatch_delete:
  "tg_op (last ps) = DELETE \<Longrightarrow> dispatch s node fs ps = delete_op s node fs ps"
  by (simp add: dispatch_def tg_op_consts)

lemma delete_op_root:
  "is_root node \<Longrightarrow> delete_op s node fs ps =
     bind (mapM (delete_doc s) ps) (\<lambda>docs.
       Inr (if docs \<noteq> [] then [Bulk docs (delete_kwargs s)] else [], fs))"
  by (simp add: delete_op_def)

text \<open>
  Claim C1, as amended. For a run of DELETE payloads on the root table in which every
  payload's data holds each root primary key (the root having at least one) and, when
  a routing column is configured, that column, the resolver makes one direct bulk call
  with exactly one delete op per payload, whose \<open>_id\<close> is the delimiter-joined string of
  that payload's root primary-key values, and leaves every slot of the filter set
  empty, so that no \<open>sync\<close> call follows. On any other run of DELETE payloads on the
  root table the resolver raises and emits nothing.
\<close>

theorem root_delete_direct_ops:
  assumes ne: "ps \<noteq> []"
    and del: "\<forall>p\<in>set ps. tg_op p = DELETE"
    and tbl: "table (hd ps) \<in> set (tables (tree s))"
    and sch: "schema (hd ps) \<in> set (schemas (tree s))"
    and node: "get_node (tree s) (table (hd ps)) (schema (hd ps)) = root (tree s)"
    and isroot: "is_root (root (tree s))"
  shows "if (\<forall>p\<in>set ps. delete_ready s p)
         then resolve s ps =
                Inr (Some (root (tree s),
                           [Bulk (map (expected_delete_doc s) ps) (delete_kwargs s)],
                           [(node_table (root (tree s)), [])])) \<and>
              Sync_payloads s ps = Inr [Bulk (map (expected_delete_doc s) ps) (delete_kwargs s)]
         else (\<exists>e. Sync_payloads s ps = Inl e)"
proof -
  let ?rt = "root (tree s)"
  let ?bad = "\<exists>p\<in>set ps. data p \<noteq> [] \<and> \<not> set (model_primary_keys ?rt) \<subseteq> fst ` set (data p)"
  have last_op: "tg_op (last ps) = DELETE"
    using del ne by simp
  have first_op: "tg_op (hd ps) \<in> set TG_OP"
    using del ne by (simp add: tg_op_consts)
  have r0: "resolve s ps =
      (if ?bad then Inl RuntimeError
       else bind (initial_filters s ?rt) (\<lambda>fs.
            bind (dispatch s ?rt fs ps) (\<lambda>(events, fs). Inr (Some (?rt, events, fs)))))"
    using ne first_op tbl sch node by (rule resolve_in_tree)
  have init: "initial_filters s ?rt = Inr [(node_table ?rt, [])]"
    using isroot by (simp add: initial_filters_root)
  have step: "bind (initial_filters s ?rt) (\<lambda>fs.
            bind (dispatch s ?rt fs ps) (\<lambda>(events, fs). Inr (Some (?rt, events, fs))))
        = bind (mapM (delete_doc s) ps) (\<lambda>docs.
              Inr (Some (?rt, if docs \<noteq> [] then [Bulk docs (delete_kwargs s)] else [],
                         [(node_table ?rt, [])])))"
    unfolding init bind.simps dispatch_delete [OF last_op] delete_op_root [OF isroot]
    by (cases "mapM (delete_doc s) ps") simp_all
  show ?thesis
  proof (cases "\<forall>p\<in>set ps. delete_ready s p")
    case True
    then have nobad: "\<not> ?bad"
      by (auto simp: delete_ready_def)
    have docs: "mapM (delete_doc s) ps = Inr (map (expected_delete_doc s) ps)"
      using True by (intro mapM_Inr_map delete_doc_ready) auto
    have r: "resolve s ps =
        Inr (Some (?rt, [Bulk (map (expected_delete_doc s) ps) (delete_kwargs s)],
                   [(node_table ?rt, [])]))"
      unfolding r0 step docs using nobad ne by simp
    have "Sync_payloads s ps = Inr [Bulk (map (expected_delete_doc s) ps) (delete_kwargs s)]"
      unfolding Sync_payloads_def r by (simp add: run_filters_all_empty)
    with r True show ?thesis by simp
  next
    case False
    then obtain p where p: "p \<in> set ps" "\<not> delete_ready s p" by blast
    from delete_doc_not_ready [OF p(2)] obtain e where e: "delete_doc s p = Inl e" ..
    from mapM_Inl [of p ps "delete_doc s" e, OF p(1) e] obtain e' where "mapM (delete_doc s) ps = Inl e'" ..
    then have "\<exists>e. resolve s ps = Inl e"
      unfolding r0 step by simp
    then obtain e2 where "resolve s ps = Inl e2" by blast
    then have "Sync_payloads s ps = Inl e2"
      by (simp add: Sync_payloads_def)
    with False show ?thesis by auto
  qed
qed

theorem root_delete_direct_ops_witness:
  "[delete_book_8, delete_book_9] \<noteq> [] \<and>
   tg_op delete_book_8 = DELETE \<and> tg_op delete_book_9 = DELETE \<and>
   table (hd [delete_book_8, delete_book_9]) \<in> set (tables (tree routed_sync)) \<and>
   schema (hd [delete_book_8, delete_book_9]) \<in> set (schemas (tree routed_sync)) \<and>
   get_node (tree routed_sync) (table (hd [delete_book_8, delete_book_9]))
       (schema (hd [delete_book_8, delete_book_9])) = root (tree routed_sync) \<and>
   is_root (root (tree routed_sync)) \<and>
   delete_ready routed_sync delete_book_8 \<and> delete_ready routed_sync delete_book_9 \<and>
   resolve routed_sync [delete_book_8, delete_book_9] =
     Inr (Some (book_node,
                [Bulk [\<lparr>doc_id = ''8'', doc_index = ''books'', doc_op_type = ''delete'',
                         doc_routing = Some (PyInt 8), doc_type = None\<rparr>,
                       \<lparr>doc_id = ''9'', doc_index = ''books'', doc_op_type = ''delete'',
                         doc_routing = Some (PyInt 9), doc_type = None\<rparr>]
                   [(''raise_on_exception'', None), (''raise_on_error'', None)]],
                [(''book'', [])])) \<and>
   Sync_payloads routed_sync [delete_book_8, delete_book_9] =
     Inr [Bulk [\<lparr>doc_id = ''8'', doc_index = ''books'', doc_op_type = ''delete'',
                 doc_routing = Some (PyInt 8), doc_type = None\<rparr>,
               \<lparr>doc_id = ''9'', doc_index = ''books'', doc_op_type = ''delete'',
                 doc_routing = Some (PyInt 9), doc_type = None\<rparr>]
            [(''raise_on_exception'', None), (''raise_on_error'', None)]]"
proof -
  let ?ps = "[delete_book_8, delete_book_9]"
  have h1: "?ps \<noteq> []" by simp
  have h2: "\<forall>p\<in>set ?ps. tg_op p = DELETE"
    by (simp add: delete_book_8_def delete_book_9_def DELETE_def)
  have h3: "table (hd ?ps) \<in> set (tables (tree routed_sync))"
    by (simp add: delete_book_8_def routed_sync_def demo_sync_def demo_tree_def)
  have h4: "schema (hd ?ps) \<in> set (schemas (tree routed_sync))"
    by (simp add: delete_book_8_def routed_sync_def demo_sync_def demo_tree_def)
  have h5: "get_node (tree routed_sync) (table (hd ?ps)) (schema (hd ?ps))
     = root (tree routed_sync)"
    by (simp add: delete_book_8_def routed_sync_def demo_sync_def demo_tree_def)
  have h6: "is_root (root (tree routed_sync))"
    by (simp add: routed_sync_def demo_sync_def demo_tree_def book_node_def)
  have h7: "\<forall>p\<in>set ?ps. delete_ready routed_sync p"
    by (simp add: delete_ready_def delete_book_8_def delete_book_9_def routed_sync_def
        demo_sync_def demo_tree_def book_node_def routing_set_def data_def)
  have d: "map (expected_delete_doc routed_sync) ?ps =
      [\<lparr>doc_id = ''8'', doc_index = ''books'', doc_op_type = ''delete'',
         doc_routing = Some (PyInt 8), doc_type = None\<rparr>,
       \<lparr>doc_id = ''9'', doc_index = ''books'', doc_op_type = ''delete'',
         doc_routing = Some (PyInt 9), doc_type = None\<rparr>]"
    by code_simp
  have k: "delete_kwargs routed_sync = [(''raise_on_exception'', None), (''raise_on_error'', None)]"
    by (simp add: delete_kwargs_def routed_sync_def demo_sync_def)
  have r: "root (tree routed_sync) = book_node" "node_table book_node = ''book''"
    by (simp_all add: routed_sync_def demo_sync_def demo_tree_def book_node_def)
  have h2': "tg_op delete_book_8 = DELETE" "tg_op delete_book_9 = DELETE"
    and h7': "delete_ready routed_sync delete_book_8" "delete_ready routed_sync delete_book_9"
    using h2 h7 by simp_all
  from root_delete_direct_ops [OF h1 h2 h3 h4 h5 h6] h7
  have "resolve routed_sync ?ps =
          Inr (Some (root (tree routed_sync),
                     [Bulk (map (expected_delete_doc routed_sync) ?ps) (delete_kwargs routed_sync)],
                     [(node_table (root (tree routed_sync)), [])])) \<and>
        Sync_payloads routed_sync ?ps =
          Inr [Bulk (map (expected_delete_doc routed_sync) ?ps) (delete_kwargs routed_sync)]"
    by (simp only: if_True)
  then show ?thesis
    unfolding d k r using h1 h2' h3 h4 h5 h6 h7' by (simp only: r simp_thms)
qed

text \<open>
  Claim C1 as stated fails. The index routes by the column \<open>tenant\<close>; the DELETE payload
  of the root row 8 holds its primary key and nothing else. \<open>_delete_op\<close> reads
  \<open>payload.data[self.routing]\<close>, raises KeyError, and no bulk-delete op is emitted.
\<close>

theorem root_delete_missing_routing_column:
  "tg_op delete_book_8 = DELETE \<and>
   table delete_book_8 \<in> set (tables (tree tenant_sync)) \<and>
   schema delete_book_8 \<in> set (schemas (tree tenant_sync)) \<and>
   get_node (tree tenant_sync) (table delete_book_8) (schema delete_book_8)
     = root (tree tenant_sync) \<and>
   is_root (root (tree tenant_sync)) \<and>
   model_primary_keys (root (tree tenant_sync)) = [''id''] \<and>
   data delete_book_8 = [(''id'', PyInt 8)] \<and>
   routing tenant_sync = Some ''tenant'' \<and>
   resolve tenant_sync [delete_book_8] = Inl KeyError \<and>
   Sync_payloads tenant_sync [delete_book_8] = Inl KeyError"
  by code_simp

section \<open>UPDATE on the root table\<close>

lemma length_map_filter_le: "length (List.map_filter f xs) \<le> length xs"
  by (induction xs) (auto simp: map_filter_simps split: option.splits)

lemma length_map_filter_eq:
  "length (List.map_filter f xs) = length xs \<longleftrightarrow> (\<forall>x\<in>set xs. f x \<noteq> None)"
proof (induction xs)
  case Nil
  then show ?case by (simp add: map_filter_simps)
next
  case (Cons a xs)
  show ?case
  proof (cases "f a")
    case None
    have "length (List.map_filter f xs) \<le> length xs" by (rule length_map_filter_le)
    with None show ?thesis by (simp add: map_filter_simps)
  next
    case (Some y)
    with Cons show ?thesis by (simp add: map_filter_simps)
  qed
qed

lemma map_filter_all: "\<forall>x\<in>set xs. f x \<noteq> None \<Longrightarrow> List.map_filter f xs = map (\<lambda>x. the (f x)) xs"
  by (induction xs) (auto simp: map_filter_simps)

lemma keys_map_of: "k \<in> fst ` set d \<longleftrightarrow> map_of d k \<noteq> None"
  by (simp add: map_of_eq_None_iff)

text \<open>
  With no routing column configured, \<open>_update_op\<close> on the root builds a delete op for
  the old document id exactly when \<open>old\<close> holds every root primary key and the old
  values differ from the new ones.
\<close>

lemma update_doc_without_routing:
  assumes "\<not> routing_set s"
    and "set (model_primary_keys (root (tree s))) \<subseteq> fst ` set (new p)"
  shows "update_doc s p =
     Inr (if set (model_primary_keys (root (tree s))) \<subseteq> fst ` set (old p) \<and>
             map (\<lambda>k. the (map_of (old p) k)) (model_primary_keys (root (tree s)))
               \<noteq> map (\<lambda>k. the (map_of (new p) k)) (model_primary_keys (root (tree s)))
          then Some \<lparr>doc_id = join (PRIMARY_KEY_DELIMITER s)
                        (map (\<lambda>k. py_str (the (map_of (old p) k)))
                           (model_primary_keys (root (tree s)))),
                      doc_index = index s, doc_op_type = ''delete'',
                      doc_routing = None, doc_type = doc_type_of s\<rparr>
          else None)"
proof -
  let ?pks = "model_primary_keys (root (tree s))"
  let ?olds = "List.map_filter (map_of (old p)) ?pks"
  let ?news = "map (\<lambda>k. the (map_of (new p) k)) ?pks"
  have news: "mapM (getitem (new p)) ?pks = Inr ?news"
    using assms(2) by (intro mapM_Inr_map getitem_in) auto
  have "length ?olds = length ?news \<longleftrightarrow> (\<forall>x\<in>set ?pks. map_of (old p) x \<noteq> None)"
    by (simp add: length_map_filter_eq del: not_None_eq)
  then have len: "length ?olds = length ?news \<longleftrightarrow> set ?pks \<subseteq> fst ` set (old p)"
    using keys_map_of [of _ "old p"] by blast
  show ?thesis
  proof (cases "set ?pks \<subseteq> fst ` set (old p)")
    case False
    with len have "length ?olds \<noteq> length ?news" by blast
    with False news show ?thesis
      by (simp add: update_doc_def Let_def)
  next
    case True
    then have "\<forall>x\<in>set ?pks. map_of (old p) x \<noteq> None"
      using keys_map_of [of _ "old p"] by blast
    then have olds: "?olds = map (\<lambda>k. the (map_of (old p) k)) ?pks"
      by (rule map_filter_all)
    show ?thesis
    proof (cases "?olds = ?news")
      case same: True
      with olds news True show ?thesis
        by (simp add: update_doc_def Let_def)
    next
      case diff: False
      then have "?pks \<noteq> []" using olds by auto
      with diff olds news True assms(1) show ?thesis
        by (simp add: update_doc_def Let_def get_doc_id_def o_def)
    qed
  qed
qed

text \<open>
  With a routing column configured, the same primary-key change raises TypeError: the
  source indexes the list \<open>old_values\<close> with the routing column's name.
\<close>

lemma update_doc_with_routing:
  assumes "routing_set s"
    and "set (model_primary_keys (root (tree s))) \<subseteq> fst ` set (new p)"
    and "set (model_primary_keys (root (tree s))) \<subseteq> fst ` set (old p)"
    and "map (\<lambda>k. the (map_of (old p) k)) (model_primary_keys (root (tree s)))
           \<noteq> map (\<lambda>k. the (map_of (new p) k)) (model_primary_keys (root (tree s)))"
  shows "update_doc s p = Inl TypeError"
proof -
  let ?pks = "model_primary_keys (root (tree s))"
  have news: "mapM (getitem (new p)) ?pks = Inr (map (\<lambda>k. the (map_of (new p) k)) ?pks)"
    using assms(2) by (intro mapM_Inr_map getitem_in) auto
  have "\<forall>x\<in>set ?pks. map_of (old p) x \<noteq> None"
    using assms(3) keys_map_of [of _ "old p"] by blast
  then have olds: "List.map_filter (map_of (old p)) ?pks = map (\<lambda>k. the (map_of (old p) k)) ?pks"
    by (rule map_filter_all)
  have "?pks \<noteq> []" using assms(4) by auto
  with news olds assms(1,4) show ?thesis
    by (simp add: update_doc_def Let_def get_doc_id_def)
qed

text \<open>
  Claim C2, at the input where the code departs from it. The index routes by \<open>id\<close>;
  the root row \<open>book\<close> changes its primary key from 7 to 8. \<open>old\<close> holds the primary key
  and its value differs from the new one, so the claim has a bulk-delete op for
  document 7 emitted; \<open>_update_op\<close> raises TypeError instead and emits nothing. On the
  same index the sibling \<open>_delete_op\<close> reads the routing value from the payload and
  succeeds, and without routing the update emits the delete op and the sync call.
\<close>

theorem update_root_routing_raises:
  "Sync_payloads routed_sync [update_book_7_8] = Inl TypeError \<and>
   Sync_payloads routed_sync [delete_book_8] =
     Inr [Bulk [\<lparr>doc_id = ''8'', doc_index = ''books'', doc_op_type = ''delete'',
                 doc_routing = Some (PyInt 8), doc_type = None\<rparr>]
            [(''raise_on_exception'', None), (''raise_on_error'', None)]] \<and>
   Sync_payloads demo_sync [update_book_7_8] =
     Inr [Bulk [\<lparr>doc_id = ''7'', doc_index = ''books'', doc_op_type = ''delete'',
                 doc_routing = None, doc_type = None\<rparr>] [],
          SyncFilters [(''book'', [[(''id'', PyInt 8)]])]]"
  by code_simp

section \<open>Filter execution\<close>

lemma chunk_list_Nil_iff: "chunk_list n xs = [] \<longleftrightarrow> n = 0 \<or> xs = []"
  by (subst chunk_list.simps) simp

lemma chunk_list_nonempty: "c \<in> set (chunk_list n xs) \<Longrightarrow> c \<noteq> []"
proof (induction n xs rule: chunk_list.induct)
  case (1 n xs)
  show ?case
  proof (cases "n = 0 \<or> xs = []")
    case True
    with "1.prems" show ?thesis
      by (subst (asm) chunk_list.simps) simp
  next
    case False
    with "1.prems" have "c = take n xs \<or> c \<in> set (chunk_list n (drop n xs))"
      by (subst (asm) chunk_list.simps) simp
    with False "1.IH" show ?thesis by auto
  qed
qed

lemma chunks_Inr: "chunks xs n = Inr cs \<Longrightarrow> 0 < n \<and> cs = chunk_list n xs"
  by (auto simp: chunks_def split: if_splits)

lemma mapM_Inr_D:
  "mapM f xs = Inr ys \<Longrightarrow> length ys = length xs \<and> (\<forall>i<length xs. f (xs ! i) = Inr (ys ! i))"
proof (induction xs arbitrary: ys)
  case Nil
  then show ?case by simp
next
  case (Cons a xs)
  from Cons.prems obtain y ys' where y: "f a = Inr y" and ys': "mapM f xs = Inr ys'"
    and ys: "ys = y # ys'"
    by (cases "f a"; cases "mapM f xs") auto
  from Cons.IH [OF ys'] y ys show ?case
    by (auto simp: nth_Cons split: nat.splits)
qed

lemma mapM_Inr_set:
  assumes "mapM f xs = Inr ys" "y \<in> set ys"
  shows "\<exists>x\<in>set xs. f x = Inr y"
proof -
  from assms(2) obtain i where i: "i < length ys" "ys ! i = y"
    by (auto simp: in_set_conv_nth)
  with mapM_Inr_D [OF assms(1)] have "i < length xs" "f (xs ! i) = Inr y" by auto
  then show ?thesis by (metis nth_mem)
qed

lemma mapM_Inr_hd:
  assumes "mapM f xs = Inr ys" "xs \<noteq> []"
  shows "ys \<noteq> [] \<and> f (hd xs) = Inr (hd ys)"
  using assms by (cases xs; cases "f (hd xs)"; cases "mapM f (tl xs)") auto

lemma dict_of_1: "dict_of [(a, x)] = [(a, x)]"
  by (simp add: dict_of_def)

lemma dict_of_2_values:
  "x \<noteq> [] \<Longrightarrow> y \<noteq> [] \<Longrightarrow>
   dict_of [(a, x), (b, y)] \<noteq> [] \<and> list_all (\<lambda>(k, l). l \<noteq> []) (dict_of [(a, x), (b, y)])"
  by (simp add: dict_of_def)

lemma dict_of_3_values:
  "x \<noteq> [] \<Longrightarrow> y \<noteq> [] \<Longrightarrow> z \<noteq> [] \<Longrightarrow>
   dict_of [(a, x), (b, y), (c, z)] \<noteq> [] \<and>
   list_all (\<lambda>(k, l). l \<noteq> []) (dict_of [(a, x), (b, y), (c, z)])"
  by (simp add: dict_of_def)

lemma sync_parent_chunks_calls:
  assumes "sync_parent_chunks s node fs l1 l2 = Inr es" "l1 \<noteq> []" "l2 \<noteq> []"
  shows "es \<noteq> [] \<and> (\<forall>e\<in>set es. nonempty_filter_call e)"
proof -
  let ?two = "SyncFilters (dict_of [(node_table (root (tree s)), l1), (node_table node, l2)])"
  have two: "nonempty_filter_call ?two"
    using dict_of_2_values [OF assms(2,3)] by (simp add: nonempty_filter_call_def)
  show ?thesis
  proof (cases "\<not> is_root node \<and> parent node \<noteq> None \<and>
                 filters_get fs (node_table (the (parent node))) \<noteq> []")
    case False
    with assms(1) have "es = [?two]"
      by (auto simp: sync_parent_chunks_def Let_def split: if_splits option.splits)
    with two show ?thesis by simp
  next
    case True
    then obtain par where par: "parent node = Some par" by auto
    let ?pf = "filters_get fs (node_table par)"
    from True par assms(1) obtain l3s where l3s: "chunks ?pf (FILTER_CHUNK_SIZE s) = Inr l3s"
      and es: "es = map (\<lambda>l3. SyncFilters (dict_of [(node_table (root (tree s)), l1),
                     (node_table node, l2), (node_table par, l3)])) l3s"
      by (cases "chunks ?pf (FILTER_CHUNK_SIZE s)") (auto simp: sync_parent_chunks_def Let_def)
    from chunks_Inr [OF l3s] have n: "0 < FILTER_CHUNK_SIZE s"
      and l3s_eq: "l3s = chunk_list (FILTER_CHUNK_SIZE s) ?pf" by auto
    from True par n l3s_eq have "l3s \<noteq> []"
      by (simp add: chunk_list_Nil_iff)
    moreover have l3ne: "\<forall>l3\<in>set l3s. l3 \<noteq> []"
      using l3s_eq chunk_list_nonempty by blast
    have "\<forall>l3\<in>set l3s. nonempty_filter_call (SyncFilters
        (dict_of [(node_table (root (tree s)), l1), (node_table node, l2), (node_table par, l3)]))"
    proof
      fix l3 assume "l3 \<in> set l3s"
      with l3ne have "l3 \<noteq> []" by simp
      from dict_of_3_values [OF assms(2,3) this]
      show "nonempty_filter_call (SyncFilters
        (dict_of [(node_table (root (tree s)), l1), (node_table node, l2), (node_table par, l3)]))"
        by (simp add: nonempty_filter_call_def)
    qed
    ultimately show ?thesis
      using es by simp
  qed
qed

lemma mapM_Inr_ex: "(\<And>x. x \<in> set xs \<Longrightarrow> \<exists>y. f x = Inr y) \<Longrightarrow> \<exists>ys. mapM f xs = Inr ys"
proof (induction xs)
  case Nil
  then show ?case by simp
next
  case (Cons a xs)
  from Cons.prems obtain y where "f a = Inr y" by auto
  moreover from Cons obtain ys where "mapM f xs = Inr ys" by auto
  ultimately show ?case by simp
qed

lemma concat_calls:
  assumes "mapM f xs = Inr ess"
    and "\<And>x es. x \<in> set xs \<Longrightarrow> f x = Inr es \<Longrightarrow> es \<noteq> [] \<and> (\<forall>e\<in>set es. P e)"
  shows "(concat ess \<noteq> [] \<longleftrightarrow> xs \<noteq> []) \<and> (\<forall>e\<in>set (concat ess). P e)"
proof -
  have each: "\<forall>es\<in>set ess. es \<noteq> [] \<and> (\<forall>e\<in>set es. P e)"
  proof
    fix es assume "es \<in> set ess"
    from mapM_Inr_set [OF assms(1) this] obtain x where "x \<in> set xs" "f x = Inr es" by blast
    then show "es \<noteq> [] \<and> (\<forall>e\<in>set es. P e)" by (rule assms(2))
  qed
  have len: "length ess = length xs"
    using mapM_Inr_D [OF assms(1)] by simp
  have "concat ess \<noteq> [] \<longleftrightarrow> ess \<noteq> []"
    using each by (cases ess) auto
  with len each show ?thesis by auto
qed

lemma sync_node_chunks_calls:
  assumes "sync_node_chunks s node fs l1 = Inr es" "l1 \<noteq> []"
  shows "es \<noteq> [] \<and> (\<forall>e\<in>set es. nonempty_filter_call e)"
proof (cases "filters_get fs (node_table node) = []")
  case True
  with assms show ?thesis
    by (auto simp: sync_node_chunks_def dict_of_1 nonempty_filter_call_def)
next
  case False
  let ?nf = "filters_get fs (node_table node)"
  from False assms(1) obtain l2s ess where l2s: "chunks ?nf (FILTER_CHUNK_SIZE s) = Inr l2s"
    and ess: "mapM (sync_parent_chunks s node fs l1) l2s = Inr ess" and es: "es = concat ess"
    by (cases "chunks ?nf (FILTER_CHUNK_SIZE s)";
        cases "mapM (sync_parent_chunks s node fs l1) (projr (chunks ?nf (FILTER_CHUNK_SIZE s)))")
       (auto simp: sync_node_chunks_def)
  from chunks_Inr [OF l2s] have n: "0 < FILTER_CHUNK_SIZE s"
    and l2s_eq: "l2s = chunk_list (FILTER_CHUNK_SIZE s) ?nf" by auto
  have ne: "l2s \<noteq> []"
    using False n l2s_eq by (simp add: chunk_list_Nil_iff)
  have "(concat ess \<noteq> [] \<longleftrightarrow> l2s \<noteq> []) \<and> (\<forall>e\<in>set (concat ess). nonempty_filter_call e)"
  proof (rule concat_calls [OF ess])
    fix l2 es' assume "l2 \<in> set l2s" "sync_parent_chunks s node fs l1 l2 = Inr es'"
    moreover from \<open>l2 \<in> set l2s\<close> have "l2 \<noteq> []"
      using l2s_eq chunk_list_nonempty by blast
    ultimately show "es' \<noteq> [] \<and> (\<forall>e\<in>set es'. nonempty_filter_call e)"
      using sync_parent_chunks_calls assms(2) by blast
  qed
  with ne es show ?thesis by simp
qed

lemma filters_get_all_empty:
  "\<not> list_ex (\<lambda>(k, l). l \<noteq> []) fs \<Longrightarrow> filters_get fs k = []"
  by (auto simp: filters_get_def list_ex_iff split: option.splits dest: map_of_SomeD)

lemma run_filters_calls:
  assumes "run_filters s node fs = Inr es"
  shows "(es \<noteq> [] \<longleftrightarrow> filters_get fs (node_table (root (tree s))) \<noteq> []) \<and>
         (\<forall>e\<in>set es. nonempty_filter_call e)"
proof (cases "list_ex (\<lambda>(k, l). l \<noteq> []) fs")
  case False
  with assms have "es = []" by (simp add: run_filters_def)
  with False show ?thesis by (simp add: filters_get_all_empty)
next
  case True
  let ?rt = "node_table (root (tree s))"
  from True assms obtain rf where rf: "map_of fs ?rt = Some rf"
    by (cases "map_of fs ?rt") (auto simp: run_filters_def)
  from True assms rf obtain l1s ess where l1s: "chunks rf (FILTER_CHUNK_SIZE s) = Inr l1s"
    and ess: "mapM (sync_node_chunks s node fs) l1s = Inr ess" and es: "es = concat ess"
    by (cases "chunks rf (FILTER_CHUNK_SIZE s)";
        cases "mapM (sync_node_chunks s node fs) (projr (chunks rf (FILTER_CHUNK_SIZE s)))")
       (auto simp: run_filters_def)
  from chunks_Inr [OF l1s] have n: "0 < FILTER_CHUNK_SIZE s"
    and l1s_eq: "l1s = chunk_list (FILTER_CHUNK_SIZE s) rf" by auto
  have ne: "l1s \<noteq> [] \<longleftrightarrow> rf \<noteq> []"
    using n l1s_eq by (simp add: chunk_list_Nil_iff)
  have "(concat ess \<noteq> [] \<longleftrightarrow> l1s \<noteq> []) \<and> (\<forall>e\<in>set (concat ess). nonempty_filter_call e)"
  proof (rule concat_calls [OF ess])
    fix l1 es' assume "l1 \<in> set l1s" "sync_node_chunks s node fs l1 = Inr es'"
    moreover from \<open>l1 \<in> set l1s\<close> have "l1 \<noteq> []"
      using l1s_eq chunk_list_nonempty by blast
    ultimately show "es' \<noteq> [] \<and> (\<forall>e\<in>set es'. nonempty_filter_call e)"
      using sync_node_chunks_calls by blast
  qed
  with ne es rf show ?thesis by (simp add: filters_get_def)
qed

lemma run_filters_returns:
  assumes "0 < FILTER_CHUNK_SIZE s"
    and "map_of fs (node_table (root (tree s))) \<noteq> None"
    and "is_root node \<or> parent node \<noteq> None"
  shows "\<exists>es. run_filters s node fs = Inr es"
proof -
  have ch: "\<exists>cs. chunks xs (FILTER_CHUNK_SIZE s) = Inr cs" for xs :: "row list"
    using assms(1) by (simp add: chunks_def)
  have inner: "\<exists>es. sync_parent_chunks s node fs l1 l2 = Inr es" for l1 l2
    using assms(1,3) by (auto simp: sync_parent_chunks_def Let_def chunks_def split: option.splits)
  have mid: "\<exists>es. sync_node_chunks s node fs l1 = Inr es" for l1
  proof (cases "filters_get fs (node_table node) = []")
    case True
    then show ?thesis by (simp add: sync_node_chunks_def)
  next
    case False
    obtain l2s where l2s: "chunks (filters_get fs (node_table node)) (FILTER_CHUNK_SIZE s) = Inr l2s"
      using ch by blast
    obtain ess where "mapM (sync_parent_chunks s node fs l1) l2s = Inr ess"
      using mapM_Inr_ex [of l2s "sync_parent_chunks s node fs l1"] inner by blast
    with False l2s show ?thesis by (simp add: sync_node_chunks_def)
  qed
  from assms(2) obtain rf where rf: "map_of fs (node_table (root (tree s))) = Some rf" by auto
  obtain l1s where l1s: "chunks rf (FILTER_CHUNK_SIZE s) = Inr l1s"
    using ch by blast
  obtain ess where "mapM (sync_node_chunks s node fs) l1s = Inr ess"
    using mapM_Inr_ex [of l1s "sync_node_chunks s node fs"] mid by blast
  with rf l1s show ?thesis by (simp add: run_filters_def)
qed

lemma bind_Inr_E: "bind m f = Inr y \<Longrightarrow> \<exists>x. m = Inr x \<and> f x = Inr y"
  by (cases m) auto

lemma foldM_invariant:
  assumes "foldM f s0 xs = Inr s1" "P s0" "\<And>s x s'. P s \<Longrightarrow> f s x = Inr s' \<Longrightarrow> P s'"
  shows "P s1"
  using assms(1,2)
proof (induction xs arbitrary: s0)
  case Nil
  then show ?case by simp
next
  case (Cons a xs)
  from Cons.prems(1) obtain s' where a: "f s0 a = Inr s'" and r: "foldM f s' xs = Inr s1"
    by (auto dest!: bind_Inr_E)
  from assms(3) [OF Cons.prems(2) a] have "P s'" .
  with Cons.IH r show ?case by blast
qed

lemma update_keeps: "map_of fs k \<noteq> None \<Longrightarrow> map_of (AList.update k' v fs) k \<noteq> None"
  by (simp add: update_conv')

lemma filters_append_keeps:
  "filters_append fs k' x = Inr fs' \<Longrightarrow> map_of fs k \<noteq> None \<Longrightarrow> map_of fs' k \<noteq> None"
  by (auto simp: filters_append_def update_conv' dest!: bind_Inr_E)

lemma filters_extend_keeps:
  "filters_extend fs k' xs = Inr fs' \<Longrightarrow> map_of fs k \<noteq> None \<Longrightarrow> map_of fs' k \<noteq> None"
  by (auto simp: filters_extend_def update_conv' dest!: bind_Inr_E)

lemma insert_parent_filters_keeps:
  assumes "insert_parent_filters par node fks p fs = Inr fs'" "map_of fs k \<noteq> None"
  shows "map_of fs' k \<noteq> None"
proof -
  let ?inner = "\<lambda>node_key fs parent_key.
      if node_key = parent_key then
        bind (getitem fs (node_table par)) (\<lambda>l.
        bind (getitem (data p) node_key) (\<lambda>v.
          Inr (AList.update (node_table par) (l @ [[(parent_key, v)]]) fs)))
      else Inr fs"
  let ?outer = "\<lambda>fs node_key.
      bind (getitem fks (node_name par)) (\<lambda>parent_keys. foldM (?inner node_key) fs parent_keys)"
  from assms(1) obtain node_keys where "foldM ?outer fs node_keys = Inr fs'"
    unfolding insert_parent_filters_def by (auto dest!: bind_Inr_E)
  then show ?thesis
  proof (rule foldM_invariant [where P = "\<lambda>fs. map_of fs k \<noteq> None"])
    show "map_of fs k \<noteq> None" by fact
  next
    fix s x s' assume s: "map_of s k \<noteq> None" and step: "?outer s x = Inr s'"
    from step obtain parent_keys where "foldM (?inner x) s parent_keys = Inr s'"
      by (auto dest!: bind_Inr_E)
    then show "map_of s' k \<noteq> None"
    proof (rule foldM_invariant [where P = "\<lambda>fs. map_of fs k \<noteq> None"])
      show "map_of s k \<noteq> None" by fact
    next
      fix t y t' assume "map_of t k \<noteq> None" "?inner x t y = Inr t'"
      then show "map_of t' k \<noteq> None"
        by (auto simp: update_conv' split: if_splits dest!: bind_Inr_E)
    qed
  qed
qed

lemma insert_through_filters_keeps:
  assumes "insert_through_filters node fks p fs = Inr fs'" "map_of fs k \<noteq> None"
  shows "map_of fs' k \<noteq> None"
proof -
  let ?step = "\<lambda>fs (i, key).
           case parent node of
             None \<Rightarrow> Inl AttributeError
           | Some par \<Rightarrow>
               bind (getitem fs (node_table par)) (\<lambda>l.
               bind (getitem fks (node_name par)) (\<lambda>parent_cols.
               bind (list_index parent_cols i) (\<lambda>parent_key.
               bind (getitem (data p) key) (\<lambda>v.
                 Inr (AList.update (node_table par) (l @ [[(parent_key, v)]]) fs)))))"
  from assms(1) obtain cols where "foldM ?step fs (enumerate 0 cols) = Inr fs'"
    unfolding insert_through_filters_def by (auto dest!: bind_Inr_E)
  then show ?thesis
  proof (rule foldM_invariant [where P = "\<lambda>fs. map_of fs k \<noteq> None"])
    show "map_of fs k \<noteq> None" by fact
  next
    fix t y t' assume "map_of t k \<noteq> None" "?step t y = Inr t'"
    then show "map_of t' k \<noteq> None"
      by (cases y) (auto simp: update_conv' split: option.splits dest!: bind_Inr_E)
  qed
qed

lemma insert_op_keeps:
  assumes "insert_op s node fs ps = Inr fs'" "map_of fs k \<noteq> None"
  shows "map_of fs' k \<noteq> None"
proof -
  let ?P = "\<lambda>fs. map_of fs k \<noteq> None"
  consider (root) "node_table node \<in> set (tables (tree s))" "is_root node"
    | (child) "node_table node \<in> set (tables (tree s))" "\<not> is_root node"
    | (through) "node_table node \<notin> set (tables (tree s))" by blast
  then show ?thesis
  proof cases
    case root
    let ?step = "\<lambda>fs payload.
        bind (mapM (getitem (data payload)) (model_primary_keys (root (tree s))))
          (\<lambda>primary_values. filters_append fs (node_table node)
             (dict_zip (model_primary_keys (root (tree s))) primary_values))"
    from root assms(1) have "foldM ?step fs ps = Inr fs'"
      by (simp add: insert_op_def)
    then show ?thesis
    proof (rule foldM_invariant [where P = ?P])
      show "?P fs" by fact
    next
      fix t y t' assume "?P t" "?step t y = Inr t'"
      then show "?P t'"
        by (auto dest!: bind_Inr_E dest: filters_append_keeps)
    qed
  next
    case child
    from child assms(1) obtain par where par: "parent node = Some par"
      by (cases "parent node") (auto simp: insert_op_def)
    let ?step = "\<lambda>fks (fs, rfilters) payload.
        bind (insert_parent_filters par node fks payload fs) (\<lambda>fs.
        bind (root_foreign_key_resolver s node payload fks rfilters) (\<lambda>rfilters.
          Inr (fs, through_node_resolver s node payload rfilters)))"
    from child par assms(1) obtain fks st where
      run: "foldM (?step fks) (fs, []) ps = Inr st" and
      fin: "(case st of (fs, rfilters) \<Rightarrow>
              if rfilters \<noteq> [] then filters_extend fs (node_table (root (tree s))) rfilters
              else Inr fs) = Inr fs'"
      by (auto simp: insert_op_def dest!: bind_Inr_E)
    from run have "?P (fst st)"
    proof (rule foldM_invariant [where P = "\<lambda>st. ?P (fst st)"])
      show "?P (fst (fs, []))" using assms(2) by simp
    next
      fix t y t' assume "?P (fst t)" "?step fks t y = Inr t'"
      then show "?P (fst t')"
        by (cases t) (auto dest!: bind_Inr_E dest: insert_parent_filters_keeps)
    qed
    with fin show ?thesis
      by (cases st) (auto split: if_splits dest: filters_extend_keeps)
  next
    case through
    from through assms(1) obtain fks where
      "foldM (\<lambda>fs payload. insert_through_filters node fks payload fs) fs ps = Inr fs'"
      by (auto simp: insert_op_def dest!: bind_Inr_E)
    then show ?thesis
    proof (rule foldM_invariant [where P = ?P])
      show "?P fs" by fact
    next
      fix t y t' assume "?P t" "insert_through_filters node fks y t = Inr t'"
      then show "?P t'" by (auto dest: insert_through_filters_keeps)
    qed
  qed
qed

lemma filters_append_keeps_Some:
  "filters_append fs k' x = Inr fs' \<Longrightarrow> map_of fs k = Some y \<Longrightarrow> \<exists>y'. map_of fs' k = Some y'"
  using filters_append_keeps [of fs k' x fs' k] by auto

lemma filters_extend_keeps_Some:
  "filters_extend fs k' xs = Inr fs' \<Longrightarrow> map_of fs k = Some y \<Longrightarrow> \<exists>y'. map_of fs' k = Some y'"
  using filters_extend_keeps [of fs k' xs fs' k] by auto

lemma update_op_keeps:
  assumes "update_op s node fs ps = Inr (es, fs')" "map_of fs k \<noteq> None"
  shows "map_of fs' k \<noteq> None"
proof (cases "is_root node")
  case True
  let ?P = "\<lambda>fs. map_of fs k \<noteq> None"
  let ?step = "\<lambda>(fs, docs) payload.
      bind (mapM (getitem (data payload)) (model_primary_keys node)) (\<lambda>primary_values.
      bind (filters_append fs (node_table node)
              (dict_zip (model_primary_keys node) primary_values)) (\<lambda>fs.
      bind (update_doc s payload) (\<lambda>d.
        Inr (fs, docs @ (case d of None \<Rightarrow> [] | Some x \<Rightarrow> [x])))))"
  from True assms(1) obtain st where run: "foldM ?step (fs, []) ps = Inr st"
    and fin: "fst st = fs'"
    by (auto simp: update_op_def dest!: bind_Inr_E)
  from run have "?P (fst st)"
  proof (rule foldM_invariant [where P = "\<lambda>st. ?P (fst st)"])
    show "?P (fst (fs, []))" using assms(2) by simp
  next
    fix t y t' assume "?P (fst t)" "?step t y = Inr t'"
    then show "?P (fst t')"
      by (cases t) (auto dest!: bind_Inr_E dest: filters_append_keeps_Some)
  qed
  with fin show ?thesis by simp
next
  case False
  let ?P = "\<lambda>fs. map_of fs k \<noteq> None"
  let ?step = "\<lambda>fs payload.
      bind (root_primary_key_resolver s node payload []) (\<lambda>rfilters.
      bind (case parent node of
              None \<Rightarrow> Inr rfilters
            | Some par \<Rightarrow>
                bind (lookup_foreign_keys s (Some par) node) (\<lambda>foreign_keys.
                  root_foreign_key_resolver s node payload foreign_keys rfilters))
        (\<lambda>rfilters.
          if rfilters \<noteq> [] then filters_extend fs (node_table (root (tree s))) rfilters
          else Inr fs))"
  from False assms(1) have "foldM ?step fs ps = Inr fs'"
    by (auto simp: update_op_def dest!: bind_Inr_E)
  then show ?thesis
  proof (rule foldM_invariant [where P = ?P])
    show "?P fs" by fact
  next
    fix t y t' assume "?P t" "?step t y = Inr t'"
    then show "?P t'"
      by (auto split: if_splits dest!: bind_Inr_E dest: filters_extend_keeps_Some)
  qed
qed

lemma delete_op_keeps:
  assumes "delete_op s node fs ps = Inr (es, fs')" "map_of fs k \<noteq> None"
  shows "map_of fs' k \<noteq> None"
proof (cases "is_root node")
  case True
  with assms show ?thesis
    by (auto simp: delete_op_def dest!: bind_Inr_E)
next
  case False
  let ?P = "\<lambda>fs. map_of fs k \<noteq> None"
  let ?step = "\<lambda>fs payload.
      bind (root_primary_key_resolver s node payload []) (\<lambda>rfilters.
        if rfilters \<noteq> [] then filters_extend fs (node_table (root (tree s))) rfilters
        else Inr fs)"
  from False assms(1) have "foldM ?step fs ps = Inr fs'"
    by (auto simp: delete_op_def dest!: bind_Inr_E)
  then show ?thesis
  proof (rule foldM_invariant [where P = ?P])
    show "?P fs" by fact
  next
    fix t y t' assume "?P t" "?step t y = Inr t'"
    then show "?P t'"
      by (auto split: if_splits dest!: bind_Inr_E dest: filters_extend_keeps_Some)
  qed
qed

lemma truncate_op_keeps:
  assumes "truncate_op s node fs = Inr (es, fs')" "map_of fs k \<noteq> None"
  shows "map_of fs' k \<noteq> None"
  using assms
  by (auto simp: truncate_op_def Let_def split: if_splits
      dest!: bind_Inr_E dest: filters_extend_keeps_Some)

lemma dispatch_keeps:
  assumes "dispatch s node fs ps = Inr (es, fs')" "map_of fs k \<noteq> None"
  shows "map_of fs' k \<noteq> None"
proof -
  let ?op = "tg_op (last ps)"
  consider (ins) "?op = INSERT" | (upd) "?op \<noteq> INSERT" "?op = UPDATE"
    | (del) "?op \<noteq> INSERT" "?op \<noteq> UPDATE" "?op = DELETE"
    | (tru) "?op \<noteq> INSERT" "?op \<noteq> UPDATE" "?op \<noteq> DELETE" "?op = TRUNCATE"
    | (none) "?op \<noteq> INSERT" "?op \<noteq> UPDATE" "?op \<noteq> DELETE" "?op \<noteq> TRUNCATE"
    by blast
  then show ?thesis
  proof cases
    case ins
    with assms(1) have "insert_op s node fs ps = Inr fs'"
      by (auto simp: dispatch_def dest!: bind_Inr_E)
    then show ?thesis using assms(2) by (rule insert_op_keeps)
  next
    case upd
    with assms(1) have "update_op s node fs ps = Inr (es, fs')"
      by (simp add: dispatch_def)
    then show ?thesis using assms(2) by (rule update_op_keeps)
  next
    case del
    with assms(1) have "delete_op s node fs ps = Inr (es, fs')"
      by (simp add: dispatch_def)
    then show ?thesis using assms(2) by (rule delete_op_keeps)
  next
    case tru
    with assms(1) have "truncate_op s node fs = Inr (es, fs')"
      by (simp add: dispatch_def)
    then show ?thesis using assms(2) by (rule truncate_op_keeps)
  next
    case none
    with assms show ?thesis by (simp add: dispatch_def)
  qed
qed

lemma initial_filters_Inr:
  assumes "initial_filters s node = Inr fs"
  shows "map_of fs (node_table (root (tree s))) \<noteq> None \<and> (is_root node \<or> parent node \<noteq> None)"
  using assms
  by (auto simp: initial_filters_def Let_def dict_of_def update_conv'
      split: if_splits option.splits)

lemma resolve_Some:
  assumes "resolve s ps = Inr (Some (node, events, fs))"
  shows "map_of fs (node_table (root (tree s))) \<noteq> None \<and> (is_root node \<or> parent node \<noteq> None)"
proof -
  from assms obtain fs0 where init: "initial_filters s node = Inr fs0"
    and disp: "dispatch s node fs0 ps = Inr (events, fs)"
    by (auto simp: resolve_def Let_def split: list.splits if_splits dest!: bind_Inr_E)
  from initial_filters_Inr [OF init] dispatch_keeps [OF disp] show ?thesis by blast
qed

text \<open>
  Claim C5, as amended. For every filter set the resolver produces (with a positive
  \<open>FILTER_CHUNK_SIZE\<close>), the filters are executed without raising; at least one
  \<open>sync\<close> call is made if and only if the root-table slot is non-empty; and every
  \<open>sync\<close> call gets a filter set none of whose slots is empty, so \<open>sync\<close> is never
  called with an empty filter set.
\<close>

theorem sync_runs_iff_root_slot:
  assumes "resolve s ps = Inr (Some (node, events, fs))"
    and "0 < FILTER_CHUNK_SIZE s"
  shows "\<exists>syncs. run_filters s node fs = Inr syncs \<and>
           Sync_payloads s ps = Inr (events @ syncs) \<and>
           (syncs \<noteq> [] \<longleftrightarrow> filters_get fs (node_table (root (tree s))) \<noteq> []) \<and>
           (\<forall>e\<in>set syncs. nonempty_filter_call e)"
proof -
  from resolve_Some [OF assms(1)] assms(2) obtain syncs where
    syncs: "run_filters s node fs = Inr syncs"
    using run_filters_returns [of s fs node] by blast
  have "Sync_payloads s ps = Inr (events @ syncs)"
    using assms(1) syncs by (simp add: Sync_payloads_def)
  with syncs run_filters_calls [OF syncs] show ?thesis by blast
qed

theorem sync_runs_iff_root_slot_witness:
  "resolve demo_sync [update_book_7_8] =
     Inr (Some (book_node,
                [Bulk [\<lparr>doc_id = ''7'', doc_index = ''books'', doc_op_type = ''delete'',
                         doc_routing = None, doc_type = None\<rparr>] []],
                [(''book'', [[(''id'', PyInt 8)]])])) \<and>
   0 < FILTER_CHUNK_SIZE demo_sync \<and>
   (\<exists>syncs. run_filters demo_sync book_node [(''book'', [[(''id'', PyInt 8)]])] = Inr syncs \<and>
      Sync_payloads demo_sync [update_book_7_8] =
        Inr ([Bulk [\<lparr>doc_id = ''7'', doc_index = ''books'', doc_op_type = ''delete'',
                       doc_routing = None, doc_type = None\<rparr>] []] @ syncs) \<and>
      (syncs \<noteq> [] \<longleftrightarrow>
         filters_get [(''book'', [[(''id'', PyInt 8)]])] (node_table (root (tree demo_sync))) \<noteq> []) \<and>
      (\<forall>e\<in>set syncs. nonempty_filter_call e))"
proof -
  have h1: "resolve demo_sync [update_book_7_8] =
     Inr (Some (book_node,
                [Bulk [\<lparr>doc_id = ''7'', doc_index = ''books'', doc_op_type = ''delete'',
                         doc_routing = None, doc_type = None\<rparr>] []],
                [(''book'', [[(''id'', PyInt 8)]])]))"
    by code_simp
  have h2: "0 < FILTER_CHUNK_SIZE demo_sync"
    by (simp add: demo_sync_def)
  from sync_runs_iff_root_slot [OF h1 h2] h1 h2 show ?thesis by blast
qed

text \<open>
  Claim C5 as stated fails: after the insertion of a \<open>city\<close> row the parent slot
  \<open>author\<close> of the filter set is non-empty, the root slot \<open>book\<close> is empty, and no
  \<open>sync\<close> call is made.
\<close>

theorem nonempty_slot_without_sync:
  "resolve shared_fk_sync [insert_city_9] =
     Inr (Some (city_node, [],
                [(''city'', []), (''book'', []), (''author'', [[(''author_id'', PyInt 5)]])])) \<and>
   filters_get [(''city'', []), (''book'', []), (''author'', [[(''author_id'', PyInt 5)]])]
     ''author'' \<noteq> [] \<and>
   run_filters shared_fk_sync city_node
     [(''city'', []), (''book'', []), (''author'', [[(''author_id'', PyInt 5)]])] = Inr [] \<and>
   Sync_payloads shared_fk_sync [insert_city_9] = Inr []"
  by code_simp

section \<open>Foreign-key lookups\<close>

lemma lookup_foreign_keys_fallback:
  "get_foreign_keys s par node = Inl ForeignKeyError \<Longrightarrow>
   lookup_foreign_keys s par node = get_foreign_keys_alt s par node"
  by (simp add: lookup_foreign_keys_def)

lemma lookup_foreign_keys_preferred:
  "get_foreign_keys s par node = Inr fks \<Longrightarrow> lookup_foreign_keys s par node = Inr fks"
  by (simp add: lookup_foreign_keys_def)

text \<open>
  INSERT on a node of the tree below the root, and UPDATE on a node below the root:
  when the preferred lookup raises ForeignKeyError, the operation goes on with the
  answer of the alternative lookup, exactly as if the preferred lookup had given it.
\<close>

lemma insert_op_tree_node_falls_back:
  assumes "node_table node \<in> set (tables (tree s))" "\<not> is_root node"
    and "get_foreign_keys s (parent node) node = Inl ForeignKeyError"
  shows "insert_op s node fs ps =
         insert_op (s\<lparr>get_foreign_keys := get_foreign_keys_alt s\<rparr>) node fs ps"
proof (cases "parent node")
  case None
  with assms show ?thesis by (simp add: insert_op_def)
next
  case (Some par)
  let ?s' = "s\<lparr>get_foreign_keys := get_foreign_keys_alt s\<rparr>"
  have a: "lookup_foreign_keys s (Some par) node = get_foreign_keys_alt s (Some par) node"
    using assms(3) Some by (simp add: lookup_foreign_keys_fallback)
  have b: "lookup_foreign_keys ?s' (Some par) node = get_foreign_keys_alt s (Some par) node"
    by (cases "get_foreign_keys_alt s (Some par) node") (auto simp: lookup_foreign_keys_def)
  have c: "root_foreign_key_resolver ?s' = root_foreign_key_resolver s"
    by (intro ext)
       (simp add: root_foreign_key_resolver_def search_filters_def doc_id_where_def Let_def
         cong: option.case_cong)
  have d: "through_node_resolver ?s' = through_node_resolver s"
    by (intro ext) (simp add: through_node_resolver_def)
  show ?thesis
    using assms(1,2) Some by (simp add: insert_op_def a b c d cong: if_cong option.case_cong)
qed

lemma update_op_falls_back:
  assumes "\<not> is_root node"
    and "get_foreign_keys s (parent node) node = Inl ForeignKeyError"
  shows "update_op s node fs ps =
         update_op (s\<lparr>get_foreign_keys := get_foreign_keys_alt s\<rparr>) node fs ps"
proof -
  let ?s' = "s\<lparr>get_foreign_keys := get_foreign_keys_alt s\<rparr>"
  have ab: "lookup_foreign_keys ?s' (Some par) node = lookup_foreign_keys s (Some par) node"
    if "parent node = Some par" for par
    using assms(2) that
    by (cases "get_foreign_keys_alt s (Some par) node") (auto simp: lookup_foreign_keys_def)
  have c: "root_foreign_key_resolver ?s' = root_foreign_key_resolver s"
    by (intro ext)
       (simp add: root_foreign_key_resolver_def search_filters_def doc_id_where_def Let_def
         cong: option.case_cong)
  have e: "root_primary_key_resolver ?s' = root_primary_key_resolver s"
    by (intro ext)
       (simp add: root_primary_key_resolver_def search_filters_def doc_id_where_def Let_def
         cong: option.case_cong)
  show ?thesis
  proof (cases "parent node")
    case None
    with assms(1) show ?thesis by (simp add: update_op_def c e cong: if_cong option.case_cong)
  next
    case (Some par)
    with assms(1) ab [OF Some] show ?thesis
      by (simp add: update_op_def c e cong: if_cong option.case_cong)
  qed
qed

text \<open>
  The branch of \<open>_insert_op\<close> for a table that is not in the tree calls the preferred
  lookup alone, so any exception of it, ForeignKeyError included, leaves the method.
\<close>

lemma insert_op_through_table_no_fallback:
  assumes "node_table node \<notin> set (tables (tree s))"
    and "get_foreign_keys s (parent node) node = Inl e"
  shows "insert_op s node fs ps = Inl e"
  using assms by (simp add: insert_op_def)

lemma search_filters_ignores_lookup:
  "search_filters (s\<lparr>get_foreign_keys := g\<rparr>) = search_filters s"
  by (intro ext) (simp add: search_filters_def doc_id_where_def)

lemma root_primary_key_resolver_ignores_lookup:
  "root_primary_key_resolver (s\<lparr>get_foreign_keys := g\<rparr>) = root_primary_key_resolver s"
  by (intro ext)
     (simp add: root_primary_key_resolver_def search_filters_ignores_lookup Let_def)

lemma delete_doc_ignores_lookup: "delete_doc (s\<lparr>get_foreign_keys := g\<rparr>) = delete_doc s"
  by (intro ext)
     (simp add: delete_doc_def get_doc_id_def routing_set_def doc_type_of_def
       cong: if_cong)

lemma update_doc_ignores_lookup: "update_doc (s\<lparr>get_foreign_keys := g\<rparr>) = update_doc s"
  by (intro ext)
     (simp add: update_doc_def get_doc_id_def routing_set_def doc_type_of_def Let_def
       cong: if_cong)

lemma delete_op_ignores_lookup:
  "delete_op (s\<lparr>get_foreign_keys := g\<rparr>) node fs ps = delete_op s node fs ps"
  by (simp add: delete_op_def delete_doc_ignores_lookup delete_kwargs_def
      root_primary_key_resolver_ignores_lookup cong: if_cong)

lemma truncate_op_ignores_lookup:
  "truncate_op (s\<lparr>get_foreign_keys := g\<rparr>) node fs = truncate_op s node fs"
  by (simp add: truncate_op_def search_filters_ignores_lookup doc_type_of_def Let_def
      cong: if_cong)

lemma initial_filters_ignores_lookup:
  "initial_filters (s\<lparr>get_foreign_keys := g\<rparr>) node = initial_filters s node"
  by (simp add: initial_filters_def)

lemma run_filters_ignores_lookup:
  "run_filters (s\<lparr>get_foreign_keys := g\<rparr>) node fs = run_filters s node fs"
proof -
  have a: "sync_parent_chunks (s\<lparr>get_foreign_keys := g\<rparr>) = sync_parent_chunks s"
    by (intro ext) (simp add: sync_parent_chunks_def cong: if_cong option.case_cong)
  have b: "sync_node_chunks (s\<lparr>get_foreign_keys := g\<rparr>) = sync_node_chunks s"
    by (intro ext) (simp add: sync_node_chunks_def a cong: if_cong)
  show ?thesis
    by (simp add: run_filters_def b cong: if_cong option.case_cong)
qed

lemma insert_op_root_ignores_lookup:
  "node_table node \<in> set (tables (tree s)) \<Longrightarrow> is_root node \<Longrightarrow>
   insert_op (s\<lparr>get_foreign_keys := g\<rparr>) node fs ps = insert_op s node fs ps"
  by (simp add: insert_op_def)

lemma update_op_root_ignores_lookup:
  "is_root node \<Longrightarrow> update_op (s\<lparr>get_foreign_keys := g\<rparr>) node fs ps = update_op s node fs ps"
  by (simp add: update_op_def update_doc_ignores_lookup)

lemma dispatch_falls_back:
  assumes "node_table node \<in> set (tables (tree s))"
    and "get_foreign_keys s (parent node) node = Inl ForeignKeyError"
  shows "dispatch (s\<lparr>get_foreign_keys := get_foreign_keys_alt s\<rparr>) node fs ps
           = dispatch s node fs ps"
proof -
  let ?s' = "s\<lparr>get_foreign_keys := get_foreign_keys_alt s\<rparr>"
  have i: "insert_op ?s' node fs ps = insert_op s node fs ps"
    using assms insert_op_root_ignores_lookup [where node = node and s = s and g = "get_foreign_keys_alt s"]
      insert_op_tree_node_falls_back [where node = node and s = s]
    by (cases "is_root node") simp_all
  have u: "update_op ?s' node fs ps = update_op s node fs ps"
    using assms(2) update_op_root_ignores_lookup [where node = node and s = s and g = "get_foreign_keys_alt s"]
      update_op_falls_back [where node = node and s = s]
    by (cases "is_root node") simp_all
  show ?thesis
    unfolding dispatch_def i u delete_op_ignores_lookup truncate_op_ignores_lookup ..
qed


text \<open>
  A table outside the tree is dropped by \<open>_payloads\<close> before any node is looked up, and
  a table of the tree reaches \<open>_insert_op\<close> with the node \<open>get_node\<close> finds for it: the
  branch of \<open>_insert_op\<close> for a table that is not in the tree is never entered when
  that node's table is a table of the tree.
\<close>

lemma payloads_outside_tree_dropped:
  assumes "tg_op p \<in> set TG_OP"
    and "table p \<notin> set (tables (tree s)) \<or> schema p \<notin> set (schemas (tree s))"
  shows "Sync_payloads s (p # ps) = Inr []"
  using assms by (auto simp: Sync_payloads_def resolve_def)

text \<open>
  Claim C8. Whenever the preferred foreign-key lookup of the query builder raises
  ForeignKeyError for the node of a run, the resolver does exactly what it does when
  the preferred lookup gives the answer of the alternative lookup: on every path that
  looks foreign keys up (INSERT and UPDATE below the root) the alternative lookup is
  tried and its answer, or its exception, decides the outcome. The node is the one
  \<open>get_node\<close> finds for the payload's table, and its table is a table of the tree.
\<close>

theorem foreign_key_lookup_falls_back:
  assumes "node_table (get_node (tree s) (table (hd ps)) (schema (hd ps))) \<in> set (tables (tree s))"
    and "get_foreign_keys s (parent (get_node (tree s) (table (hd ps)) (schema (hd ps))))
           (get_node (tree s) (table (hd ps)) (schema (hd ps))) = Inl ForeignKeyError"
  shows "Sync_payloads s ps = Sync_payloads (s\<lparr>get_foreign_keys := get_foreign_keys_alt s\<rparr>) ps"
proof (cases ps)
  case Nil
  then show ?thesis by (simp add: Sync_payloads_def resolve_def)
next
  case (Cons p rest)
  let ?s' = "s\<lparr>get_foreign_keys := get_foreign_keys_alt s\<rparr>"
  let ?node = "get_node (tree s) (table p) (schema p)"
  from assms Cons have d: "dispatch ?s' ?node fs ps = dispatch s ?node fs ps" for fs
    using dispatch_falls_back [of ?node s] by simp
  have "resolve ?s' ps = resolve s ps"
    unfolding resolve_def Cons list.case
    by (simp add: initial_filters_ignores_lookup d [unfolded Cons] Let_def
        cong: if_cong)
  then show ?thesis
    by (simp add: Sync_payloads_def run_filters_ignores_lookup
        cong: option.case_cong)
qed

theorem foreign_key_lookup_falls_back_witness:
  "node_table (get_node (tree fallback_sync) (table (hd [insert_author_4])) (schema (hd [insert_author_4])))
     \<in> set (tables (tree fallback_sync)) \<and>
   get_foreign_keys fallback_sync
     (parent (get_node (tree fallback_sync) (table (hd [insert_author_4])) (schema (hd [insert_author_4]))))
     (get_node (tree fallback_sync) (table (hd [insert_author_4])) (schema (hd [insert_author_4])))
     = Inl ForeignKeyError \<and>
   get_foreign_keys_alt fallback_sync (Some book_node) author_node
     = Inr [(''book'', [''author_id'']), (''author'', [''author_id''])] \<and>
   Sync_payloads fallback_sync [insert_author_4]
     = Inr [SyncFilters [(''book'', [[(''author_id'', PyInt 4)]])]]"
proof -
  have h1: "node_table (get_node (tree fallback_sync) (table (hd [insert_author_4]))
              (schema (hd [insert_author_4]))) \<in> set (tables (tree fallback_sync))"
    by (simp add: fallback_sync_def demo_sync_def demo_tree_def insert_author_4_def author_node_def)
  have h2: "get_foreign_keys fallback_sync
     (parent (get_node (tree fallback_sync) (table (hd [insert_author_4])) (schema (hd [insert_author_4]))))
     (get_node (tree fallback_sync) (table (hd [insert_author_4])) (schema (hd [insert_author_4])))
     = Inl ForeignKeyError"
    by (simp add: fallback_sync_def)
  have a: "get_foreign_keys_alt fallback_sync (Some book_node) author_node
     = Inr [(''book'', [''author_id'']), (''author'', [''author_id''])]"
    by (simp add: fallback_sync_def)
  have v: "Sync_payloads (fallback_sync\<lparr>get_foreign_keys := get_foreign_keys_alt fallback_sync\<rparr>)
             [insert_author_4]
     = Inr [SyncFilters [(''book'', [[(''author_id'', PyInt 4)]])]]"
    by code_simp
  from foreign_key_lookup_falls_back [OF h1 h2] v h1 h2 a show ?thesis
    by (simp only: simp_thms)
qed

section \<open>The checkpoint after a batch, and the calls on the slot\<close>

lemma advance_checkpoint_all_null:
  assumes "xmins \<noteq> []" "\<forall>x\<in>set xmins. x = None"
  shows "advance_checkpoint t xmins cp = (Inr (), cp)"
proof -
  from assms have "set xmins = {None}"
    by (cases xmins) auto
  then show ?thesis by (simp add: advance_checkpoint_def)
qed

lemma advance_checkpoint_all_set:
  assumes "xmins \<noteq> []" "None \<notin> set xmins"
  shows "advance_checkpoint t xmins cp = set_value (Some (min (Min (the ` set xmins)) t - 1)) cp"
proof -
  from assms have "set xmins \<noteq> {None}" "set xmins \<noteq> {}" by auto
  with assms(2) show ?thesis by (simp add: advance_checkpoint_def Let_def)
qed

lemma advance_checkpoint_mixed:
  assumes "None \<in> set xmins" "Some x \<in> set xmins"
  shows "advance_checkpoint t xmins cp = (Inl TypeError, cp)"
proof -
  from assms have "set xmins \<noteq> {None}" "set xmins \<noteq> {}" by auto
  with assms(1) show ?thesis by (simp add: advance_checkpoint_def Let_def)
qed

text \<open>
  Claim C3, at the input where the code departs from it. The batch holds a TRUNCATE
  (xmin null) and an INSERT with xmin 110, \<open>txid_current\<close> is 200 and the checkpoint
  is 100. Not every xmin is null, so the claim has the checkpoint set to
  \<open>min(110, 200) - 1 = 109\<close>; the code raises TypeError in \<open>min(txids)\<close> and the
  checkpoint stays 100. The INSERT alone moves it to 109, the TRUNCATE alone is skipped.
\<close>

theorem mixed_batch_checkpoint_raises:
  "stored (checkpoint demo_sync) = Some 100 \<and>
   (case on_publish demo_sync 200 [truncate_book, insert_book_10] of
      (r, s') \<Rightarrow> r = Inl TypeError \<and> stored (checkpoint s') = Some 100) \<and>
   (case on_publish demo_sync 200 [insert_book_10] of
      (r, s') \<Rightarrow> r = Inr [SyncFilters [(''book'', [[(''id'', PyInt 10)]])]] \<and>
                 stored (checkpoint s') = Some 109) \<and>
   (case on_publish demo_sync 200 [truncate_book] of
      (r, s') \<Rightarrow> r = Inr [] \<and> stored (checkpoint s') = Some 100)"
  by code_simp

lemma advance_follows_peek_loop:
  "advance_follows_peek last_peek (fst (logical_slot_changes s b answers))"
proof (induction answers arbitrary: last_peek)
  case Nil
  then show ?case by simp
next
  case (Cons changes answers)
  show ?case
  proof (cases "changes = []")
    case True
    then show ?thesis by simp
  next
    case False
    let ?rows = "filter (\<lambda>r. \<not> (starts_with ''BEGIN'' (change_data r)
                                   \<or> starts_with ''COMMIT'' (change_data r))) changes"
    show ?thesis
    proof (cases "process_rows s [] ?rows")
      case (Inl e)
      with False show ?thesis by simp
    next
      case (Inr es)
      obtain calls r where rest: "logical_slot_changes s b answers = (calls, r)"
        by (cases "logical_slot_changes s b answers")
      from Cons.IH [of "Some b"] rest have "advance_follows_peek (Some b) calls" by simp
      with False Inr rest show ?thesis by simp
    qed
  qed
qed

text \<open>
  Claim C6, as amended. Every advance (get) of the slot made by
  \<open>logical_slot_changes\<close>, and so by \<open>pull\<close>, has exactly the bounds
  \<open>(txmin, txmax, upto_nchanges, upto_lsn)\<close> of the peek just before it, whether the
  loop ends normally or by an exception.
\<close>

theorem advance_uses_peek_bounds:
  "advance_follows_peek None (fst (logical_slot_changes s b answers)) \<and>
   advance_follows_peek None (fst (fst (pull s txid1 txid2 lsn answers)))"
proof -
  have "advance_follows_peek None (fst (fst (pull s txid1 txid2 lsn answers)))"
  proof (cases "get_value (checkpoint s)")
    case (Pair r cp)
    show ?thesis
    proof (cases r)
      case (Inl e)
      with Pair show ?thesis by (simp add: pull_def)
    next
      case (Inr tmin)
      let ?s1 = "s\<lparr>checkpoint := cp\<rparr>"
      let ?b = "\<lparr>txmin = tmin, txmax = Some txid1,
                 upto_nchanges = Some (LOGICAL_SLOT_CHUNK_SIZE s), upto_lsn = Some lsn\<rparr>"
      obtain calls res where l: "logical_slot_changes ?s1 ?b answers = (calls, res)"
        by (cases "logical_slot_changes ?s1 ?b answers")
      have c: "advance_follows_peek None calls"
        using advance_follows_peek_loop [of None ?s1 ?b answers] l by simp
      have "fst (fst (pull s txid1 txid2 lsn answers)) = calls"
        using Pair Inr l
        by (cases res; cases "set_value (Some (if txid1 \<noteq> 0 then txid1 else txid2)) cp";
            cases "fst (set_value (Some (if txid1 \<noteq> 0 then txid1 else txid2)) cp)")
           (auto simp: pull_def Let_def)
      with c show ?thesis by simp
    qed
  qed
  with advance_follows_peek_loop [of None s b answers] show ?thesis by simp
qed

text \<open>
  Claim C6 as stated fails on the truncation worker. After a \<open>pull\<close> that peeks with
  the bounds \<open>(100, 200, 5000, 0/16B3748)\<close> and finds the slot empty, \<open>_truncate_slots\<close>
  advances the slot with no bound at all.
\<close>

theorem truncate_slots_other_bounds:
  "fst (pull demo_sync 200 0 ''0/16B3748'' [])
     = ([Peek \<lparr>txmin = Some 100, txmax = Some 200, upto_nchanges = Some 5000,
                upto_lsn = Some ''0/16B3748''\<rparr>],
        Inr [SyncTx (Some 100) (Some 200)]) \<and>
   truncate_slots (snd (pull demo_sync 200 0 ''0/16B3748'' []))
     = [Get \<lparr>txmin = None, txmax = None, upto_nchanges = None, upto_lsn = None\<rparr>] \<and>
   \<not> advance_follows_peek None
       (fst (fst (pull demo_sync 200 0 ''0/16B3748'' []))
        @ truncate_slots (snd (pull demo_sync 200 0 ''0/16B3748'' [])))"
  by code_simp

section \<open>Checkpoint monotonicity\<close>

lemma stored_set_value:
  assumes "set_value (Some v) cp = (Inr u, cp')"
  shows "stored cp' = Some v"
proof (cases cp)
  case (File fc)
  with assms show ?thesis
    by (auto simp: set_value_def FileCheckpoint_set_value_def stored_def int_str_str_int
        split: if_splits)
next
  case (Redis rc)
  with assms show ?thesis
    by (auto simp: set_value_def RedisCheckpoint_set_value_def stored_def int_str_str_int
        split: if_splits)
qed

lemma stored_get_value:
  assumes "get_value cp = (r, cp')"
  shows "stored cp' = stored cp"
proof (cases cp)
  case (File fc)
  with assms show ?thesis
    by (auto simp: get_value_def FileCheckpoint_get_value_def stored_def
        split: if_splits option.splits sum.splits)
next
  case (Redis rc)
  with assms show ?thesis
    by (auto simp: get_value_def RedisCheckpoint_get_value_def stored_def
        split: if_splits option.splits sum.splits)
qed

lemma xmin_substitute_base_table: "xmin (substitute_base_table s p) = xmin p"
proof -
  have "xmin (foldl (\<lambda>p node. if table p \<in> set (base_tables node)
                                then p\<lparr>table := node_table node\<rparr> else p) p nodes) = xmin p"
    for nodes
    by (induction nodes arbitrary: p) simp_all
  then show ?thesis by (simp add: substitute_base_table_def)
qed

lemma advance_checkpoint_stored:
  assumes "advance_checkpoint t xmins cp = (Inr u, cp')"
  shows "(set xmins = {None} \<and> cp' = cp) \<or>
         (xmins \<noteq> [] \<and> None \<notin> set xmins \<and>
          stored cp' = Some (min (Min (the ` set xmins)) t - 1))"
proof (cases "set xmins = {None}")
  case True
  with assms show ?thesis by (simp add: advance_checkpoint_def)
next
  case False
  with assms have ne: "xmins \<noteq> []" and nn: "None \<notin> set xmins"
    and w: "set_value (Some (min (Min (the ` set xmins)) t - 1)) cp = (Inr u, cp')"
    by (auto simp: advance_checkpoint_def Let_def split: if_splits)
  from stored_set_value [OF w] ne nn show ?thesis by simp
qed

lemma on_publish_checkpoint:
  assumes "on_publish s t ps = (Inr es, s')"
  shows "\<exists>u. advance_checkpoint t (map xmin ps) (checkpoint s) = (Inr u, checkpoint s')"
proof -
  have m: "map xmin (map (substitute_base_table s) ps) = map xmin ps"
    by (simp add: xmin_substitute_base_table)
  obtain r cp where a: "advance_checkpoint t (map xmin ps) (checkpoint s) = (r, cp)"
    by (cases "advance_checkpoint t (map xmin ps) (checkpoint s)")
  from assms show ?thesis
    unfolding on_publish_def Let_def m a
    by (cases r) (auto split: sum.splits)
qed

lemma pull_checkpoint:
  assumes "pull s txid1 txid2 lsn answers = ((calls, Inr es), s')"
  shows "stored (checkpoint s') = Some (if txid1 \<noteq> 0 then txid1 else txid2)"
proof -
  obtain r cp where g: "get_value (checkpoint s) = (r, cp)"
    by (cases "get_value (checkpoint s)")
  with assms obtain tmin where r: "r = Inr tmin"
    by (cases r) (auto simp: pull_def)
  let ?s1 = "s\<lparr>checkpoint := cp\<rparr>"
  let ?b = "\<lparr>txmin = tmin, txmax = Some txid1,
             upto_nchanges = Some (LOGICAL_SLOT_CHUNK_SIZE s), upto_lsn = Some lsn\<rparr>"
  obtain calls' res where l: "logical_slot_changes ?s1 ?b answers = (calls', res)"
    by (cases "logical_slot_changes ?s1 ?b answers")
  obtain w cp' where w: "set_value (Some (if txid1 \<noteq> 0 then txid1 else txid2)) cp = (w, cp')"
    by (cases "set_value (Some (if txid1 \<noteq> 0 then txid1 else txid2)) cp")
  from assms g r l w obtain u where "w = Inr u" "checkpoint s' = cp'"
    by (cases res; cases w) (auto simp: pull_def Let_def)
  with w stored_set_value show ?thesis by metis
qed

lemma run_step_never_decreases:
  assumes "run_step s st = Some s'" "stored (checkpoint s) = Some c" "step_fresh c st"
  shows "\<exists>c'. stored (checkpoint s') = Some c' \<and> c \<le> c'"
proof (cases st)
  case (PullStep txid1 txid2 lsn answers)
  with assms(1) obtain calls es where "pull s txid1 txid2 lsn answers = ((calls, Inr es), s')"
    by (auto simp: run_step_def split: prod.splits sum.splits)
  from pull_checkpoint [OF this] assms(3) PullStep show ?thesis
    by (simp add: step_fresh_def)
next
  case (BatchStep t ps)
  with assms(1) obtain es where "on_publish s t ps = (Inr es, s')"
    by (auto simp: run_step_def split: prod.splits sum.splits)
  from on_publish_checkpoint [OF this] obtain u where
    a: "advance_checkpoint t (map xmin ps) (checkpoint s) = (Inr u, checkpoint s')" ..
  from assms(3) BatchStep have t: "c < t"
    and xs: "\<forall>p\<in>set ps. case xmin p of None \<Rightarrow> True | Some x \<Rightarrow> c < x"
    by (simp_all add: step_fresh_def list_all_iff)
  from advance_checkpoint_stored [OF a] show ?thesis
  proof
    assume "set (map xmin ps) = {None} \<and> checkpoint s' = checkpoint s"
    with assms(2) show ?thesis by simp
  next
    let ?A = "the ` set (map xmin ps)"
    assume w: "map xmin ps \<noteq> [] \<and> None \<notin> set (map xmin ps) \<and>
               stored (checkpoint s') = Some (min (Min ?A) t - 1)"
    then have fin: "finite ?A" and ne: "?A \<noteq> {}" by auto
    have "\<forall>a\<in>?A. c < a"
    proof
      fix a assume "a \<in> ?A"
      then obtain p where p: "p \<in> set ps" "a = the (xmin p)" by auto
      from w p(1) have "xmin p \<noteq> None" by force
      then obtain x where "xmin p = Some x" by auto
      with p xs show "c < a" by force
    qed
    with fin ne have "c < Min ?A" by simp
    with t w show ?thesis by simp
  qed
qed

text \<open>
  A consumed batch that holds an xmin at or below the stored checkpoint lowers the
  checkpoint.
\<close>

lemma batch_behind_lowers_checkpoint:
  assumes "on_publish s t ps = (Inr es, s')"
    and "stored (checkpoint s) = Some c"
    and "p \<in> set ps" "xmin p = Some x" "x \<le> c"
  shows "\<exists>c'. stored (checkpoint s') = Some c' \<and> c' < c"
proof -
  from on_publish_checkpoint [OF assms(1)] obtain u where
    a: "advance_checkpoint t (map xmin ps) (checkpoint s) = (Inr u, checkpoint s')" ..
  let ?A = "the ` set (map xmin ps)"
  from assms(3,4) have in_set: "Some x \<in> set (map xmin ps)" by force
  then have "set (map xmin ps) \<noteq> {None}" by auto
  with advance_checkpoint_stored [OF a]
  have w: "stored (checkpoint s') = Some (min (Min ?A) t - 1)" by blast
  have "the (Some x) \<in> ?A" using in_set by (rule imageI)
  then have "x \<in> ?A" by simp
  then have "Min ?A \<le> x" by simp
  with assms(5) w show ?thesis by simp
qed

text \<open>
  Claim C4, as amended. Along any sequence of successful \<open>pull\<close> calls and consumed
  batches, a \<open>pull\<close> stores the transaction id read at its start and a batch with
  non-null xmins stores \<open>min(min(xmins), txid_current) - 1\<close>; the stored checkpoint
  never decreases provided every step is fresh for the checkpoint stored before it
  (the id a pull stores is not below it, every xmin of a batch and the current
  transaction id are above it).
\<close>

theorem checkpoint_never_decreases:
  assumes "run s steps = Some s'"
    and "fresh_run s steps"
    and "stored (checkpoint s) = Some c"
  shows "\<exists>c'. stored (checkpoint s') = Some c' \<and> c \<le> c'"
  using assms
proof (induction steps arbitrary: s c)
  case Nil
  then show ?case by simp
next
  case (Cons st steps)
  from Cons.prems(1) obtain s1 where s1: "run_step s st = Some s1" and r: "run s1 steps = Some s'"
    by (cases "run_step s st") auto
  from Cons.prems(2,3) s1 have f: "step_fresh c st" and fr: "fresh_run s1 steps"
    by simp_all
  from run_step_never_decreases [OF s1 Cons.prems(3) f] obtain c1 where
    c1: "stored (checkpoint s1) = Some c1" "c \<le> c1" by blast
  from Cons.IH [OF r fr c1(1)] obtain c' where "stored (checkpoint s') = Some c'" "c1 \<le> c'"
    by blast
  with c1(2) show ?case by auto
qed

theorem checkpoint_never_decreases_witness:
  "fresh_run demo_sync
     [PullStep 200 0 ''0/16B3748'' [], BatchStep 250 [insert_book_210]] \<and>
   stored (checkpoint demo_sync) = Some 100 \<and>
   (\<exists>s' c'. run demo_sync [PullStep 200 0 ''0/16B3748'' [], BatchStep 250 [insert_book_210]]
               = Some s' \<and>
            stored (checkpoint s') = Some c' \<and> 100 \<le> c')"
proof -
  let ?steps = "[PullStep 200 0 ''0/16B3748'' [], BatchStep 250 [insert_book_210]]"
  have f: "fresh_run demo_sync ?steps"
    by code_simp
  have c: "stored (checkpoint demo_sync) = Some 100"
    by code_simp
  have "\<not> Option.is_none (run demo_sync ?steps)"
    by code_simp
  then obtain s' where r: "run demo_sync ?steps = Some s'"
    by (cases "run demo_sync ?steps") auto
  from checkpoint_never_decreases [OF r f c] r f c show ?thesis by blast
qed

text \<open>
  Claim C4 as stated fails. From checkpoint 100 a \<open>pull\<close> that reads transaction id
  200 stores 200; the consumer then processes a payload queued before the pull, with
  xmin 150: the batch succeeds, its xmin is not null, and the checkpoint drops to 149.
\<close>

theorem checkpoint_decreases_after_pull:
  "stored (checkpoint demo_sync) = Some 100 \<and>
   stored (checkpoint (the (run demo_sync [PullStep 200 0 ''0/16B3748'' []]))) = Some 200 \<and>
   \<not> Option.is_none
       (run demo_sync [PullStep 200 0 ''0/16B3748'' [], BatchStep 201 [insert_book_150]]) \<and>
   stored (checkpoint (the
       (run demo_sync [PullStep 200 0 ''0/16B3748'' [], BatchStep 201 [insert_book_150]])))
     = Some 149"
  by code_simp

end
